theory Spec2Isabelle
  imports Complex_Main "HOL-Library.List_Lexorder" "HOL-Library.Char_ord" "HOL-Library.Sublist"
begin

section \<open>Data model\<close>

text \<open>
  The scraper (\<^verbatim>\<open>c.py\<close>) and the image downloader (\<^verbatim>\<open>d.py\<close>) exchange card records
  through a JSON file. A record is a Python \<^verbatim>\<open>dict\<close> with string keys. The values the
  extractor writes are strings, lists of strings and lists of dicts of strings; \<open>jval\<close>
  is that universe (JSON numbers, booleans and null are never written by the scraper
  and are not part of it).

  A \<^verbatim>\<open>dict\<close> keeps its keys in insertion order, and \<^verbatim>\<open>list(merged.values())\<close> returns
  the values in that order, so a dict is an association list: \<open>map_of d k\<close> is
  \<^verbatim>\<open>d[k]\<close>, and \<open>map_of d k = None\<close> is \<^verbatim>\<open>k not in d\<close>.
\<close>

datatype jval = JStr string | JList "jval list" | JDict "(string \<times> jval) list"

type_synonym 'v dict = "(string \<times> 'v) list"

type_synonym card = "jval dict"

text \<open>The exceptions of the Python code, as values.\<close>

datatype error = TypeError | KeyError | AttributeError | ValueError | ClientError

text \<open>\<^verbatim>\<open>d[k] = v\<close>: an existing key keeps its position, a new key goes to the end.\<close>

primrec setitem :: "string \<Rightarrow> 'v \<Rightarrow> 'v dict \<Rightarrow> 'v dict" where
  "setitem k v [] = [(k, v)]"
| "setitem k v (p # ps) = (if fst p = k then (k, v) # ps else p # setitem k v ps)"

text \<open>\<^verbatim>\<open>d.update(other)\<close>, that is \<^verbatim>\<open>for k in other: d[k] = other[k]\<close>.\<close>

definition dict_update :: "'v dict \<Rightarrow> 'v dict \<Rightarrow> 'v dict" where
  "dict_update d other =
     fold (\<lambda>k acc. case map_of other k of Some v \<Rightarrow> setitem k v acc | None \<Rightarrow> acc)
       (map fst other) d"

section \<open>The clock\<close>

text \<open>
  \<^verbatim>\<open>datetime.now().isoformat()\<close> reads the wall clock. A clock is the sequence of the
  readings that successive calls return; a call returns the first one and leaves the
  rest. Timestamps are ISO-8601 strings, compared as strings (lexicographically), which
  is their chronological order.
\<close>

type_synonym clock = "nat \<Rightarrow> string"

definition now_isoformat :: "clock \<Rightarrow> string \<times> clock" where
  "now_isoformat clk = (clk 0, \<lambda>n. clk (Suc n))"

section \<open>The merge engine (\<^verbatim>\<open>merge_cards\<close>, c.py lines 28-48)\<close>

text \<open>
  The body of the loop of lines 33-46, for one new card, with the dict \<^verbatim>\<open>merged\<close> as
  its state. A card without \<^verbatim>\<open>'name'\<close> is skipped (\<^verbatim>\<open>continue\<close>). A name that is a
  list or a dict is unhashable, and \<^verbatim>\<open>card['name'] in merged\<close> raises \<^verbatim>\<open>TypeError\<close>.
  The records are distinct objects (the JSON loader and the extractor allocate one
  dict per record), so the in-place \<^verbatim>\<open>update\<close> of a record is a functional update of
  its entry.
\<close>

definition merge_one :: "string \<Rightarrow> card dict \<Rightarrow> card \<Rightarrow> error + card dict" where
  "merge_one current_time merged new_card =
     (case map_of new_card ''name'' of
        None \<Rightarrow> Inr merged
      | Some (JStr name) \<Rightarrow>
          (case map_of merged name of
             Some old \<Rightarrow>
               Inr (setitem name
                      (setitem ''updated_at'' (JStr current_time) (dict_update old new_card))
                      merged)
           | None \<Rightarrow>
               Inr (setitem name
                      (setitem ''updated_at'' (JStr current_time)
                         (setitem ''created_at'' (JStr current_time) new_card))
                      merged))
      | Some _ \<Rightarrow> Inl TypeError)"

text \<open>The loop over \<^verbatim>\<open>new_cards\<close>; an exception ends it.\<close>

fun merge_loop :: "string \<Rightarrow> card dict \<Rightarrow> card list \<Rightarrow> error + card dict" where
  "merge_loop current_time merged [] = Inr merged"
| "merge_loop current_time merged (new_card # new_cards) =
     (case merge_one current_time merged new_card of
        Inl e \<Rightarrow> Inl e
      | Inr merged' \<Rightarrow> merge_loop current_time merged' new_cards)"

text \<open>
  \<^verbatim>\<open>merge_cards\<close>: the clock is read once (line 31), before the loop; the result is
  \<^verbatim>\<open>list(merged.values())\<close>.
\<close>

definition merge_cards ::
  "clock \<Rightarrow> card dict \<Rightarrow> card list \<Rightarrow> (error + card list) \<times> clock" where
  "merge_cards clk existing_cards new_cards =
     (let (current_time, clk') = now_isoformat clk in
        (case merge_loop current_time existing_cards new_cards of
           Inl e \<Rightarrow> Inl e
         | Inr merged \<Rightarrow> Inr (map snd merged),
         clk'))"

section \<open>The document tree of a page\<close>

text \<open>
  \<^verbatim>\<open>BeautifulSoup(html, 'html.parser')\<close> turns the markup into a tree of tags and
  strings. The parser is a library; the model starts from the tree it builds. A tag
  has a name, its attributes (a dict) and its children.
\<close>

datatype node = Tag string "string dict" "node list" | NavigableString string

text \<open>All nodes below a node, in document order (what \<^verbatim>\<open>find_all\<close> searches).\<close>

fun descendants :: "node \<Rightarrow> node list" where
  "descendants (Tag name attrs children) = concat (map (\<lambda>c. c # descendants c) children)"
| "descendants (NavigableString s) = []"

text \<open>\<^verbatim>\<open>tag.text\<close>: the strings below the tag, concatenated.\<close>

fun get_text :: "node \<Rightarrow> string" where
  "get_text (Tag name attrs children) = concat (map get_text children)"
| "get_text (NavigableString s) = s"

text \<open>
  White space as \<^verbatim>\<open>str.strip()\<close> and the regular expression \<^verbatim>\<open>\s\<close> see it: the
  characters for which \<^verbatim>\<open>str.isspace()\<close> holds. Text is held as UTF-8 bytes, so a white
  space character is the byte sequence that encodes it: U+0009 to U+000D, U+001C to
  U+0020, U+0085, U+00A0, U+1680, U+2000 to U+200A, U+2028, U+2029, U+202F, U+205F and
  U+3000.
\<close>

definition white_space :: "string list" where
  "white_space =
     [[CHR 0x09], [CHR 0x0A], [CHR 0x0B], [CHR 0x0C], [CHR 0x0D],
      [CHR 0x1C], [CHR 0x1D], [CHR 0x1E], [CHR 0x1F], [CHR 0x20],
      [CHR 0xC2, CHR 0x85], [CHR 0xC2, CHR 0xA0], [CHR 0xE1, CHR 0x9A, CHR 0x80],
      [CHR 0xE2, CHR 0x80, CHR 0x80], [CHR 0xE2, CHR 0x80, CHR 0x81],
      [CHR 0xE2, CHR 0x80, CHR 0x82], [CHR 0xE2, CHR 0x80, CHR 0x83],
      [CHR 0xE2, CHR 0x80, CHR 0x84], [CHR 0xE2, CHR 0x80, CHR 0x85],
      [CHR 0xE2, CHR 0x80, CHR 0x86], [CHR 0xE2, CHR 0x80, CHR 0x87],
      [CHR 0xE2, CHR 0x80, CHR 0x88], [CHR 0xE2, CHR 0x80, CHR 0x89],
      [CHR 0xE2, CHR 0x80, CHR 0x8A], [CHR 0xE2, CHR 0x80, CHR 0xA8],
      [CHR 0xE2, CHR 0x80, CHR 0xA9], [CHR 0xE2, CHR 0x80, CHR 0xAF],
      [CHR 0xE2, CHR 0x81, CHR 0x9F], [CHR 0xE3, CHR 0x80, CHR 0x80]]"

text \<open>
  The number of bytes of the sequence of \<open>seqs\<close> that a text starts with, 0 when it
  starts with none.
\<close>

definition match_len :: "string list \<Rightarrow> string \<Rightarrow> nat" where
  "match_len seqs s =
     (case List.find (\<lambda>w. w \<noteq> [] \<and> prefix w s) seqs of None \<Rightarrow> 0 | Some w \<Rightarrow> length w)"

text \<open>A text without the sequences of \<open>seqs\<close> that it starts with.\<close>

function strip_front :: "string list \<Rightarrow> string \<Rightarrow> string" where
  "strip_front seqs s =
     (if match_len seqs s = 0 then s else strip_front seqs (drop (match_len seqs s) s))"
  by pat_completeness auto
termination
proof (relation "measure (\<lambda>(seqs, s). length s)")
  show "wf (measure (\<lambda>(seqs, s). length s))" by simp
next
  fix seqs :: "string list" and s :: string
  assume "match_len seqs s \<noteq> 0"
  then obtain w where "w \<noteq> []" "prefix w s" "match_len seqs s = length w"
    by (auto simp: match_len_def find_Some_iff split: option.splits)
  then have "0 < match_len seqs s" "match_len seqs s \<le> length s"
    by (auto dest: prefix_length_le)
  then show "((seqs, drop (match_len seqs s) s), (seqs, s)) \<in> measure (\<lambda>(seqs, s). length s)"
    by simp
qed

declare strip_front.simps [simp del]

text \<open>\<^verbatim>\<open>s.strip()\<close>: the white space at both ends is removed.\<close>

definition strip :: "string \<Rightarrow> string" where
  "strip s = rev (strip_front (map rev white_space) (rev (strip_front white_space s)))"

text \<open>
  The values of a \<^verbatim>\<open>class\<close> attribute: its white space separated words (the matches
  of \<^verbatim>\<open>\S+\<close>). \<open>w\<close> is the word being read.
\<close>

function words_of :: "string \<Rightarrow> string \<Rightarrow> string list" where
  "words_of s w =
     (if s = [] then (if w = [] then [] else [w])
      else if match_len white_space s = 0 then words_of (tl s) (w @ [hd s])
      else if w = [] then words_of (drop (match_len white_space s) s) []
      else w # words_of (drop (match_len white_space s) s) [])"
  by pat_completeness auto
termination
proof (relation "measure (\<lambda>(s, w). length s)", goal_cases)
  case 1
  show ?case by simp
next
  case (2 s w)
  then show ?case by simp
next
  case (3 s w)
  then obtain v where "v \<noteq> []" "prefix v s" "match_len white_space s = length v"
    by (auto simp: match_len_def find_Some_iff split: option.splits)
  then have "0 < match_len white_space s" "match_len white_space s \<le> length s"
    by (auto dest: prefix_length_le)
  then show ?case by simp
next
  case (4 s w)
  then obtain v where "v \<noteq> []" "prefix v s" "match_len white_space s = length v"
    by (auto simp: match_len_def find_Some_iff split: option.splits)
  then have "0 < match_len white_space s" "match_len white_space s \<le> length s"
    by (auto dest: prefix_length_le)
  then show ?case by simp
qed

declare words_of.simps [simp del]

definition is_tag :: "string \<Rightarrow> node \<Rightarrow> bool" where
  "is_tag name n = (case n of Tag name' attrs children \<Rightarrow> name' = name | NavigableString s \<Rightarrow> False)"

definition has_class :: "string \<Rightarrow> node \<Rightarrow> bool" where
  "has_class cls n =
     (case n of
        Tag name attrs children \<Rightarrow>
          (case map_of attrs ''class'' of None \<Rightarrow> False | Some v \<Rightarrow> cls \<in> set (words_of v []))
      | NavigableString s \<Rightarrow> False)"

text \<open>\<^verbatim>\<open>n.find_all(name, class_=cls)\<close>, \<^verbatim>\<open>n.find(name, class_=cls)\<close> (\<open>find_one\<close>) and
  \<^verbatim>\<open>n.find(name)\<close> (\<open>find_tag\<close>).\<close>

definition find_all :: "string \<Rightarrow> string \<Rightarrow> node \<Rightarrow> node list" where
  "find_all name cls n = filter (\<lambda>d. is_tag name d \<and> has_class cls d) (descendants n)"

definition find_one :: "string \<Rightarrow> string \<Rightarrow> node \<Rightarrow> node option" where
  "find_one name cls n = (case find_all name cls n of [] \<Rightarrow> None | d # ds \<Rightarrow> Some d)"

definition find_tag :: "string \<Rightarrow> node \<Rightarrow> node option" where
  "find_tag name n = (case filter (is_tag name) (descendants n) of [] \<Rightarrow> None | d # ds \<Rightarrow> Some d)"

text \<open>\<^verbatim>\<open>tag[key]\<close>: the attribute, or \<^verbatim>\<open>KeyError\<close>.\<close>

definition getattr :: "node \<Rightarrow> string \<Rightarrow> error + string" where
  "getattr n key =
     (case n of
        Tag name attrs children \<Rightarrow>
          (case map_of attrs key of None \<Rightarrow> Inl KeyError | Some v \<Rightarrow> Inr v)
      | NavigableString s \<Rightarrow> Inl TypeError)"

section \<open>The record extractor (\<^verbatim>\<open>get_card_info\<close>, c.py lines 50-141)\<close>

text \<open>The three labels of line 85, 97 and 99, as UTF-8 bytes.\<close>

definition label_brands :: string where
  "label_brands = [CHR 0xE5, CHR 0x9B, CHR 0xBD, CHR 0xE9, CHR 0x9A, CHR 0x9B, CHR 0xE3, CHR 0x83,
     CHR 0x96, CHR 0xE3, CHR 0x83, CHR 0xA9, CHR 0xE3, CHR 0x83, CHR 0xB3, CHR 0xE3, CHR 0x83, CHR 0x89]"

definition label_annual_fee :: string where
  "label_annual_fee = [CHR 0xE5, CHR 0xB9, CHR 0xB4, CHR 0xE4, CHR 0xBC, CHR 0x9A, CHR 0xE8, CHR 0xB2,
     CHR 0xBB]"

definition label_point_rate :: string where
  "label_point_rate = [CHR 0xE3, CHR 0x83, CHR 0x9D, CHR 0xE3, CHR 0x82, CHR 0xA4, CHR 0xE3, CHR 0x83,
     CHR 0xB3, CHR 0xE3, CHR 0x83, CHR 0x88, CHR 0xE9, CHR 0x82, CHR 0x84, CHR 0xE5, CHR 0x85, CHR 0x83,
     CHR 0xE7, CHR 0x8E, CHR 0x87]"

text \<open>Lines 74-77: the card image. A missing \<^verbatim>\<open>src\<close> is a \<^verbatim>\<open>KeyError\<close>.\<close>

definition extract_image :: "node \<Rightarrow> card \<Rightarrow> error + card" where
  "extract_image item crd =
     (case find_one ''div'' ''main-card'' item of
        None \<Rightarrow> Inr crd
      | Some card_img \<Rightarrow>
          (case find_tag ''img'' card_img of
             None \<Rightarrow> Inr crd
           | Some img \<Rightarrow>
               (case getattr img ''src'' of
                  Inl e \<Rightarrow> Inl e
                | Inr src \<Rightarrow> Inr (setitem ''image_url'' (JStr src) crd))))"

text \<open>Lines 87-95: the loop over the brand items of a spec.\<close>

fun brands_loop :: "node list \<Rightarrow> jval list \<Rightarrow> error + jval list" where
  "brands_loop [] brands = Inr brands"
| "brands_loop (brand_item # brand_items) brands =
     (case find_tag ''img'' brand_item of
        None \<Rightarrow> brands_loop brand_items brands
      | Some brand_img \<Rightarrow>
          (case getattr brand_img ''src'' of
             Inl e \<Rightarrow> Inl e
           | Inr src \<Rightarrow>
               (case getattr brand_img ''alt'' of
                  Inl e \<Rightarrow> Inl e
                | Inr alt \<Rightarrow>
                    brands_loop brand_items
                      (brands @ [JDict [(''image_url'', JStr src), (''name'', JStr alt)]]))))"

text \<open>
  Lines 80-100: the loop over the specs of an item. \<^verbatim>\<open>spec.find(...).text\<close> on a spec
  without a head, and \<^verbatim>\<open>detail.find_all\<close> or \<^verbatim>\<open>detail.text\<close> on a spec without a
  detail, are an \<^verbatim>\<open>AttributeError\<close> on \<^verbatim>\<open>None\<close>.
\<close>

fun specs_loop :: "node list \<Rightarrow> card \<Rightarrow> error + card" where
  "specs_loop [] crd = Inr crd"
| "specs_loop (spec # specs) crd =
     (case find_one ''div'' ''p-itemBox_data_spec_head'' spec of
        None \<Rightarrow> Inl AttributeError
      | Some h \<Rightarrow>
          (let head = strip (get_text h);
               detail = find_one ''div'' ''p-itemBox_data_spec_detail'' spec
           in
             if head = label_brands then
               (case detail of
                  None \<Rightarrow> Inl AttributeError
                | Some d \<Rightarrow>
                    (case brands_loop (find_all ''li'' ''p-itemBox_data_brand_item'' d) [] of
                       Inl e \<Rightarrow> Inl e
                     | Inr brands \<Rightarrow> specs_loop specs (setitem ''brands'' (JList brands) crd)))
             else if head = label_annual_fee then
               (case detail of
                  None \<Rightarrow> Inl AttributeError
                | Some d \<Rightarrow> specs_loop specs (setitem ''annual_fee'' (JStr (strip (get_text d))) crd))
             else if head = label_point_rate then
               (case detail of
                  None \<Rightarrow> Inl AttributeError
                | Some d \<Rightarrow> specs_loop specs (setitem ''point_rate'' (JStr (strip (get_text d))) crd))
             else specs_loop specs crd))"

text \<open>
  Lines 102-108: name and detail link. The name is set before \<^verbatim>\<open>name_link['href']\<close>
  is read.
\<close>

definition extract_name :: "node \<Rightarrow> card \<Rightarrow> error + card" where
  "extract_name item crd =
     (case find_one ''div'' ''card-spec-blk'' item of
        None \<Rightarrow> Inr crd
      | Some card_info \<Rightarrow>
          (case find_one ''a'' ''p-planSearchList_name_link'' card_info of
             None \<Rightarrow> Inr crd
           | Some name_link \<Rightarrow>
               (case getattr name_link ''href'' of
                  Inl e \<Rightarrow> Inl e
                | Inr href \<Rightarrow>
                    Inr (setitem ''detail_url'' (JStr (''https://kakaku.com'' @ href))
                          (setitem ''name'' (JStr (strip (get_text name_link))) crd)))))"

text \<open>Lines 110-131: rank, introduction and features; nothing here can raise.\<close>

definition extract_rank :: "node \<Rightarrow> card \<Rightarrow> card" where
  "extract_rank item crd =
     (case find_one ''span'' ''rank-box'' item of
        None \<Rightarrow> crd
      | Some rank \<Rightarrow>
          (case find_tag ''span'' rank of
             None \<Rightarrow> crd
           | Some rank_num \<Rightarrow> setitem ''rank'' (JStr (strip (get_text rank_num))) crd))"

definition extract_catch :: "node \<Rightarrow> card \<Rightarrow> card" where
  "extract_catch item crd =
     (let crd1 = (case find_one ''p'' ''p-itemBox_catch_ttl'' item of
                    None \<Rightarrow> crd
                  | Some catch_ttl \<Rightarrow>
                      setitem ''introduction_title'' (JStr (strip (get_text catch_ttl))) crd)
      in case find_one ''p'' ''p-itemBox_catch_txt'' item of
           None \<Rightarrow> crd1
         | Some catch_txt \<Rightarrow>
             setitem ''introduction_text'' (JStr (strip (get_text catch_txt))) crd1)"

definition extract_features :: "node \<Rightarrow> card \<Rightarrow> card" where
  "extract_features item crd =
     setitem ''features''
       (JList (map (\<lambda>recm. JStr (strip (get_text recm))) (find_all ''li'' ''p-itemBox_recm_item'' item)))
       crd"

text \<open>Lines 72-131: the record of one listing item, from the empty dict.\<close>

definition extract_item :: "node \<Rightarrow> error + card" where
  "extract_item item =
     (case extract_image item [] of
        Inl e \<Rightarrow> Inl e
      | Inr crd1 \<Rightarrow>
          (case specs_loop (find_all ''li'' ''p-itemBox_data_spec_list'' item) crd1 of
             Inl e \<Rightarrow> Inl e
           | Inr crd2 \<Rightarrow>
               (case extract_name item crd2 of
                  Inl e \<Rightarrow> Inl e
                | Inr crd3 \<Rightarrow>
                    Inr (extract_features item (extract_catch item (extract_rank item crd3))))))"

text \<open>Lines 71-133: the loop over the items; line 133 appends every record.\<close>

fun items_loop :: "node list \<Rightarrow> card list \<Rightarrow> error + card list" where
  "items_loop [] cards = Inr cards"
| "items_loop (item # card_items) cards =
     (case extract_item item of
        Inl e \<Rightarrow> Inl e
      | Inr crd \<Rightarrow> items_loop card_items (cards @ [crd]))"

definition extract_cards :: "node \<Rightarrow> error + card list" where
  "extract_cards soup = items_loop (find_all ''li'' ''p-planSearchList_item'' soup) []"

text \<open>
  What the site answers to a \<^verbatim>\<open>GET\<close>. \<^verbatim>\<open>RequestFailed e\<close>: \<^verbatim>\<open>session.get\<close>, the reading of
  the body or the parser raises \<open>e\<close>. \<^verbatim>\<open>Decoded soup\<close>: \<^verbatim>\<open>response.text()\<close> decodes the body, and \<open>soup\<close> is its
  tree. \<^verbatim>\<open>Undecodable r\<close>: \<^verbatim>\<open>response.text()\<close> raises \<^verbatim>\<open>UnicodeDecodeError\<close>, and \<open>r\<close> is
  what the retry of lines 63-64 gives: the tree of the body decoded as cp932, or the
  error of \<^verbatim>\<open>response.read()\<close>.
\<close>

datatype response = RequestFailed error | Decoded node | Undecodable "error + node"

type_synonym web = "string \<Rightarrow> response"

text \<open>Lines 55-137, the body of the \<^verbatim>\<open>try\<close>.\<close>

definition fetch_and_extract :: "web \<Rightarrow> string \<Rightarrow> error + card list" where
  "fetch_and_extract session url =
     (case session url of
        RequestFailed e \<Rightarrow> Inl e
      | Decoded soup \<Rightarrow> extract_cards soup
      | Undecodable (Inl e) \<Rightarrow> Inl e
      | Undecodable (Inr soup) \<Rightarrow> extract_cards soup)"

text \<open>Lines 139-141: \<^verbatim>\<open>except Exception\<close> turns every error into the empty list.\<close>

definition get_card_info :: "web \<Rightarrow> string \<Rightarrow> card list" where
  "get_card_info session url =
     (case fetch_and_extract session url of Inl e \<Rightarrow> [] | Inr cards \<Rightarrow> cards)"

section \<open>The page group scheduler (\<^verbatim>\<open>process_page_group\<close>, c.py lines 143-153)\<close>

text \<open>\<^verbatim>\<open>str(page)\<close>: the decimal digits of an integer.\<close>

definition digit_char :: "nat \<Rightarrow> char" where
  "digit_char d = char_of (48 + d)"

fun str_nat :: "nat \<Rightarrow> string" where
  "str_nat n = (if n < 10 then [digit_char n] else str_nat (n div 10) @ [digit_char (n mod 10)])"

declare str_nat.simps [simp del]

definition str_int :: "int \<Rightarrow> string" where
  "str_int i = (if i < 0 then CHR ''-'' # str_nat (nat (- i)) else str_nat (nat i))"

definition base_url :: string where
  "base_url = ''https://kakaku.com/card/list/?cc_page=''"

text \<open>
  One \<^verbatim>\<open>get_card_info\<close> task per page; \<^verbatim>\<open>asyncio.gather\<close> returns the results in the
  order of the tasks, whatever the order in which they complete, and line 153 flattens
  them.
\<close>

definition process_page_group :: "web \<Rightarrow> int list \<Rightarrow> card list" where
  "process_page_group session pages =
     concat (map (\<lambda>page. get_card_info session (base_url @ str_int page)) pages)"

section \<open>Persistence and the main program (c.py lines 15-26 and 155-216)\<close>

text \<open>
  The output file before a run: missing, unreadable (not JSON), or a JSON array of
  records.
\<close>

datatype file_state = Missing | Unreadable | Stored "card list"

text \<open>
  Line 23, the dict comprehension: records without a name are left out, a later record
  replaces an earlier one of the same name, and an unhashable name raises.
\<close>

fun index_by_name :: "card list \<Rightarrow> card dict \<Rightarrow> error + card dict" where
  "index_by_name [] acc = Inr acc"
| "index_by_name (crd # cards) acc =
     (case map_of crd ''name'' of
        None \<Rightarrow> index_by_name cards acc
      | Some (JStr name) \<Rightarrow> index_by_name cards (setitem name crd acc)
      | Some _ \<Rightarrow> Inl TypeError)"

definition load_existing_cards :: "file_state \<Rightarrow> card dict" where
  "load_existing_cards file =
     (case file of
        Missing \<Rightarrow> []
      | Unreadable \<Rightarrow> []
      | Stored cards \<Rightarrow> (case index_by_name cards [] of Inl e \<Rightarrow> [] | Inr existing \<Rightarrow> existing))"

text \<open>Lines 206-208: the two time stamps of a record of a fresh store.\<close>

definition stamp :: "string \<Rightarrow> card \<Rightarrow> card" where
  "stamp current_time crd =
     setitem ''updated_at'' (JStr current_time) (setitem ''created_at'' (JStr current_time) crd)"

text \<open>
  Lines 196-213: what \<^verbatim>\<open>json.dump\<close> writes to the output file, from the file as it was
  and the records scraped. \<open>Inl\<close>: the run ends with an exception and writes nothing.
\<close>

definition save_cards :: "clock \<Rightarrow> file_state \<Rightarrow> card list \<Rightarrow> (error + card list) \<times> clock" where
  "save_cards clk file all_cards =
     (let existing_cards = load_existing_cards file in
        if existing_cards \<noteq> [] then merge_cards clk existing_cards all_cards
        else
          (let (current_time, clk') = now_isoformat clk in
             (Inr (map (stamp current_time) all_cards), clk')))"

text \<open>Lines 180-188: the page groups of the default mode.\<close>

definition total_pages :: nat where
  "total_pages = 114"

definition group_size :: nat where
  "group_size = 5"

definition num_groups :: nat where
  "num_groups = nat \<lceil>real total_pages / real group_size\<rceil>"

definition group_pages :: "nat \<Rightarrow> int list" where
  "group_pages grp =
     (let start_page = int grp * int group_size + 1;
          end_page = min ((int grp + 1) * int group_size) (int total_pages)
      in [start_page..end_page])"

definition page_groups :: "int list list" where
  "page_groups = map group_pages [0..<num_groups]"

text \<open>
  The site may answer a request differently depending on what it has served before.
  \<open>st served\<close> gives its answers once the groups of requests \<open>served\<close>, in that order,
  have completed. The tasks of one group run concurrently, and the model takes their
  answers not to depend on each other.
\<close>

type_synonym site = "string list list \<Rightarrow> web"

text \<open>The requests of a group: line 148 for each of its pages.\<close>

definition group_urls :: "int list \<Rightarrow> string list" where
  "group_urls pages = map (\<lambda>page. base_url @ str_int page) pages"

text \<open>
  Lines 185-192: the loop over the groups. Line 191 waits for the whole group before
  the next one starts, so the state is the groups of requests completed so far and
  \<^verbatim>\<open>all_cards\<close>; a group is answered by the site as it is after the groups before it.
\<close>

fun scrape_loop ::
  "site \<Rightarrow> int list list \<Rightarrow> string list list \<times> card list \<Rightarrow> string list list \<times> card list" where
  "scrape_loop st [] state = state"
| "scrape_loop st (pages # groups) (served, all_cards) =
     scrape_loop st groups
       (served @ [group_urls pages], all_cards @ process_page_group (st served) pages)"

text \<open>The default mode: the groups of requests made, in their order, and \<^verbatim>\<open>all_cards\<close>.\<close>

definition scrape_all :: "site \<Rightarrow> string list list \<times> card list" where
  "scrape_all st = scrape_loop st page_groups ([], [])"

text \<open>
  The command line: no argument, a list of page numbers, or an argument that
  \<^verbatim>\<open>int\<close> rejects (lines 172-175: the program prints a message and returns).
  \<open>main\<close> takes the state of the output file of the invocation (its name depends on
  the mode) and returns what the run writes to it; opening the file for writing is
  taken to succeed. The random pause of line 136 has no effect on the records.
\<close>

datatype invocation = NoArgs | PageList "int list" | BadPageList

definition main :: "invocation \<Rightarrow> site \<Rightarrow> clock \<Rightarrow> file_state \<Rightarrow> (error + card list) \<times> clock" where
  "main argv st clk file =
     (case argv of
        BadPageList \<Rightarrow> (Inl ValueError, clk)
      | PageList pages \<Rightarrow> save_cards clk file (process_page_group (st []) pages)
      | NoArgs \<Rightarrow> save_cards clk file (snd (scrape_all st)))"

text \<open>
  The invariant that the specification states for a persisted record: both time
  stamps are there, and \<^verbatim>\<open>created_at\<close> is not later than \<^verbatim>\<open>updated_at\<close>.
\<close>

definition valid_stamps :: "card \<Rightarrow> bool" where
  "valid_stamps r =
     (case map_of r ''created_at'' of
        Some (JStr created) \<Rightarrow>
          (case map_of r ''updated_at'' of
             Some (JStr updated) \<Rightarrow> created \<le> updated
           | _ \<Rightarrow> False)
      | _ \<Rightarrow> False)"

text \<open>A record whose \<^verbatim>\<open>created_at\<close> is not later than a given time.\<close>

definition created_by :: "string \<Rightarrow> card \<Rightarrow> bool" where
  "created_by t r = (case map_of r ''created_at'' of Some (JStr created) \<Rightarrow> created \<le> t | _ \<Rightarrow> False)"

section \<open>The image downloader (\<^verbatim>\<open>process_cards\<close>, d.py)\<close>

text \<open>
  \<^verbatim>\<open>urlparse(url).path\<close>, after \<^verbatim>\<open>urllib.parse\<close> of Python 3.11. Leading control
  characters and spaces are dropped, and every tab, carriage return and line feed.
  A scheme is cut off at the first colon when what stands before it is a letter
  followed by scheme characters. A network location after \<^verbatim>\<open>//\<close> is cut off up to the
  next \<^verbatim>\<open>/\<close>, \<^verbatim>\<open>?\<close> or \<^verbatim>\<open>#\<close>; a location with only one of the two brackets is a
  \<^verbatim>\<open>ValueError\<close>. Fragment and query are cut off at the first \<^verbatim>\<open>#\<close> and \<^verbatim>\<open>?\<close>. For the
  schemes that take parameters, the last path segment ends at its first \<^verbatim>\<open>;\<close>.

  Two checks of the library are not computed here: that the host between two brackets
  is an IPv6 or IPvFuture address (\<^verbatim>\<open>_check_bracketed_host\<close>), and that a location with
  characters beyond ASCII gains none of \<^verbatim>\<open>/?#@:\<close> under NFKC normalisation
  (\<^verbatim>\<open>_checknetloc\<close>). The parameter \<open>netloc_ok\<close> stands for them: it says whether the
  library accepts such a location, and is asked for no other; a location it rejects
  is a \<^verbatim>\<open>ValueError\<close>.
\<close>

definition is_alpha :: "char \<Rightarrow> bool" where
  "is_alpha ch = ((CHR ''a'' \<le> ch \<and> ch \<le> CHR ''z'') \<or> (CHR ''A'' \<le> ch \<and> ch \<le> CHR ''Z''))"

definition is_scheme_char :: "char \<Rightarrow> bool" where
  "is_scheme_char ch =
     (is_alpha ch \<or> (CHR ''0'' \<le> ch \<and> ch \<le> CHR ''9'') \<or> ch \<in> set ''+-.'')"

definition is_ascii :: "char \<Rightarrow> bool" where
  "is_ascii ch = (ch < CHR 0x80)"

definition lower :: "string \<Rightarrow> string" where
  "lower s =
     map (\<lambda>ch. if CHR ''A'' \<le> ch \<and> ch \<le> CHR ''Z'' then char_of (of_char ch + (32::nat)) else ch) s"

definition uses_params :: "string list" where
  "uses_params = [[], ''ftp'', ''hdl'', ''prospero'', ''http'', ''imap'', ''https'', ''shttp'',
     ''rtsp'', ''rtsps'', ''rtspu'', ''sip'', ''sips'', ''mms'', ''sftp'', ''tel'']"

text \<open>\<^verbatim>\<open>os.path.basename\<close>: what follows the last slash.\<close>

definition basename :: "string \<Rightarrow> string" where
  "basename p = rev (takeWhile (\<lambda>ch. ch \<noteq> CHR ''/'') (rev p))"

text \<open>The first two steps of \<^verbatim>\<open>urlsplit\<close>: \<^verbatim>\<open>lstrip\<close> and the removal of the unsafe bytes.\<close>

definition remove_unsafe :: "string \<Rightarrow> string" where
  "remove_unsafe url =
     filter (\<lambda>ch. ch \<notin> set [CHR 0x09, CHR 0x0D, CHR 0x0A]) (dropWhile (\<lambda>ch. ch \<le> CHR 0x20) url)"

definition split_scheme :: "string \<Rightarrow> string \<times> string" where
  "split_scheme url =
     (let pre = takeWhile (\<lambda>ch. ch \<noteq> CHR '':'') url in
        if CHR '':'' \<in> set url \<and> pre \<noteq> [] \<and> is_alpha (hd pre) \<and> list_all is_scheme_char pre
        then (lower pre, drop (length pre + 1) url)
        else ([], url))"

text \<open>The network location and what follows it.\<close>

definition split_netloc :: "string \<Rightarrow> string \<times> string" where
  "split_netloc url =
     (if take 2 url = ''//''
      then (takeWhile (\<lambda>ch. ch \<notin> set ''/?#'') (drop 2 url),
            dropWhile (\<lambda>ch. ch \<notin> set ''/?#'') (drop 2 url))
      else ([], url))"

definition split_params :: "string \<Rightarrow> string" where
  "split_params url =
     take (length url - length (basename url)) url @
     takeWhile (\<lambda>ch. ch \<noteq> CHR '';'') (basename url)"

definition urlparse_path :: "(string \<Rightarrow> bool) \<Rightarrow> string \<Rightarrow> error + string" where
  "urlparse_path netloc_ok url =
     (let (scheme, rest) = split_scheme (remove_unsafe url);
          (netloc, rest1) = split_netloc rest;
          rest2 = takeWhile (\<lambda>ch. ch \<noteq> CHR ''#'') rest1;
          rest3 = takeWhile (\<lambda>ch. ch \<noteq> CHR ''?'') rest2
      in if (CHR ''['' \<in> set netloc) \<noteq> (CHR '']'' \<in> set netloc) then Inl ValueError
         else if (CHR ''['' \<in> set netloc \<or> \<not> list_all is_ascii netloc) \<and> \<not> netloc_ok netloc
         then Inl ValueError
         else Inr (if scheme \<in> set uses_params \<and> CHR '';'' \<in> set rest3
                   then split_params rest3 else rest3))"

text \<open>d.py lines 27-29; the \<^verbatim>\<open>ValueError\<close> of \<^verbatim>\<open>urlparse\<close> is not caught.\<close>

definition get_filename_from_url :: "(string \<Rightarrow> bool) \<Rightarrow> string \<Rightarrow> error + string" where
  "get_filename_from_url netloc_ok url =
     (case urlparse_path netloc_ok url of Inl e \<Rightarrow> Inl e | Inr path \<Rightarrow> Inr (basename path))"

text \<open>
  d.py lines 31-38: the names in a directory that one of the four patterns matches.
  \<^verbatim>\<open>glob\<close> does not match a name that starts with a dot against \<^verbatim>\<open>*\<close>. The directory
  is given by the list of its entries.
\<close>

definition glob_star :: "string \<Rightarrow> string list \<Rightarrow> string list" where
  "glob_star ext entries = filter (\<lambda>f. take 1 f \<noteq> ''.'' \<and> suffix ext f) entries"

definition load_existing_images :: "string list \<Rightarrow> string set" where
  "load_existing_images entries =
     set (concat (map (\<lambda>ext. glob_star ext entries) [''.png'', ''.jpg'', ''.jpeg'', ''.gif'']))"

text \<open>
  A Python \<^verbatim>\<open>set\<close> of URLs, as a list without duplicates: \<^verbatim>\<open>s.add(x)\<close>. Python fixes
  no iteration order for a set; the model iterates in the order of insertion, and
  the results below do not depend on the order.
\<close>

definition set_add :: "string \<Rightarrow> string list \<Rightarrow> string list" where
  "set_add x s = (if x \<in> set s then s else s @ [x])"

text \<open>
  d.py lines 71-72 for one element of \<^verbatim>\<open>card['brands']\<close>. For a dict, \<^verbatim>\<open>in\<close> asks for
  the key; for a string it asks for a substring and for a list for an element, and
  indexing either with a string then raises. Only a string can be added to a set.
\<close>

definition add_brand :: "jval \<Rightarrow> string list \<Rightarrow> error + string list" where
  "add_brand brand brand_urls =
     (case brand of
        JDict d \<Rightarrow>
          (case map_of d ''image_url'' of
             None \<Rightarrow> Inr brand_urls
           | Some (JStr url) \<Rightarrow> Inr (set_add url brand_urls)
           | Some _ \<Rightarrow> Inl TypeError)
      | JStr s \<Rightarrow> if sublist ''image_url'' s then Inl TypeError else Inr brand_urls
      | JList l \<Rightarrow> if JStr ''image_url'' \<in> set l then Inl TypeError else Inr brand_urls)"

fun brands_urls_loop :: "jval list \<Rightarrow> string list \<Rightarrow> error + string list" where
  "brands_urls_loop [] brand_urls = Inr brand_urls"
| "brands_urls_loop (brand # brands) brand_urls =
     (case add_brand brand brand_urls of
        Inl e \<Rightarrow> Inl e
      | Inr brand_urls' \<Rightarrow> brands_urls_loop brands brand_urls')"

text \<open>
  \<^verbatim>\<open>for brand in card['brands']\<close>: a list gives its elements, a dict its keys, a string
  its characters.
\<close>

definition iterate :: "jval \<Rightarrow> jval list" where
  "iterate v =
     (case v of
        JList l \<Rightarrow> l
      | JDict d \<Rightarrow> map (\<lambda>kv. JStr (fst kv)) d
      | JStr s \<Rightarrow> map (\<lambda>ch. JStr [ch]) s)"

text \<open>d.py lines 63-72: the two sets of URLs, as the pair (brand URLs, card URLs).\<close>

fun collect_urls ::
  "card list \<Rightarrow> string list \<times> string list \<Rightarrow> error + string list \<times> string list" where
  "collect_urls [] urls = Inr urls"
| "collect_urls (crd # cards) (brand_urls, card_urls) =
     (case (case map_of crd ''image_url'' of
              None \<Rightarrow> Inr card_urls
            | Some (JStr url) \<Rightarrow> Inr (set_add url card_urls)
            | Some _ \<Rightarrow> Inl TypeError) of
        Inl e \<Rightarrow> Inl e
      | Inr card_urls' \<Rightarrow>
          (case (case map_of crd ''brands'' of
                   None \<Rightarrow> Inr brand_urls
                 | Some brands \<Rightarrow> brands_urls_loop (iterate brands) brand_urls) of
             Inl e \<Rightarrow> Inl e
           | Inr brand_urls' \<Rightarrow> collect_urls cards (brand_urls', card_urls')))"

text \<open>
  d.py lines 81-84 and 86-89: the loop that keeps the URLs whose file name is not in
  the directory scan; \<open>new\<close> is the list built so far.
\<close>

fun new_urls ::
  "(string \<Rightarrow> bool) \<Rightarrow> string set \<Rightarrow> string list \<Rightarrow> string list \<Rightarrow> error + string list" where
  "new_urls netloc_ok existing_images [] new = Inr new"
| "new_urls netloc_ok existing_images (url # urls) new =
     (case get_filename_from_url netloc_ok url of
        Inl e \<Rightarrow> Inl e
      | Inr filename \<Rightarrow>
          new_urls netloc_ok existing_images urls
            (if filename \<notin> existing_images then new @ [url] else new))"

text \<open>
  d.py lines 100-103 and 113-116: one \<^verbatim>\<open>download_image\<close> task per new URL, with the
  path \<^verbatim>\<open>os.path.join(directory, filename)\<close>. Once gathered, each task sends one \<^verbatim>\<open>GET\<close>
  for its URL (line 14) and writes the answer to its path.
\<close>

fun download_tasks ::
  "(string \<Rightarrow> bool) \<Rightarrow> string \<Rightarrow> string list \<Rightarrow> (string \<times> string) list \<Rightarrow>
     error + (string \<times> string) list" where
  "download_tasks netloc_ok directory [] tasks = Inr tasks"
| "download_tasks netloc_ok directory (url # urls) tasks =
     (case get_filename_from_url netloc_ok url of
        Inl e \<Rightarrow> Inl e
      | Inr filename \<Rightarrow>
          download_tasks netloc_ok directory urls (tasks @ [(url, directory @ ''/'' @ filename)]))"

text \<open>
  \<^verbatim>\<open>process_cards\<close>, from the entries of the two image directories and the store file:
  the download tasks that the run gathers, brands first, and the exception that ends
  it, if one does. A store that cannot be loaded ends the run before any download
  (lines 55-57). An exception in the loops of lines 63-89 ends it before any download
  as well; the brand tasks are gathered (line 105) before the card tasks are made.
\<close>

definition process_cards ::
  "(string \<Rightarrow> bool) \<Rightarrow> string list \<Rightarrow> string list \<Rightarrow> file_state \<Rightarrow>
     (string \<times> string) list \<times> error option" where
  "process_cards netloc_ok brand_entries card_entries file =
     (let existing_brand_images = load_existing_images brand_entries;
          existing_card_images = load_existing_images card_entries
      in case file of
           Missing \<Rightarrow> ([], None)
         | Unreadable \<Rightarrow> ([], None)
         | Stored cards \<Rightarrow>
             (case collect_urls cards ([], []) of
                Inl e \<Rightarrow> ([], Some e)
              | Inr (brand_urls, card_urls) \<Rightarrow>
                  (case new_urls netloc_ok existing_brand_images brand_urls [] of
                     Inl e \<Rightarrow> ([], Some e)
                   | Inr new_brand_urls \<Rightarrow>
                       (case new_urls netloc_ok existing_card_images card_urls [] of
                          Inl e \<Rightarrow> ([], Some e)
                        | Inr new_card_urls \<Rightarrow>
                            (case download_tasks netloc_ok ''images/brands'' new_brand_urls [] of
                               Inl e \<Rightarrow> ([], Some e)
                             | Inr brand_tasks \<Rightarrow>
                                 (case download_tasks netloc_ok ''images/cards'' new_card_urls [] of
                                    Inl e \<Rightarrow> (brand_tasks, Some e)
                                  | Inr card_tasks \<Rightarrow> (brand_tasks @ card_tasks, None)))))))"

text \<open>The \<^verbatim>\<open>GET\<close> requests of a run: the URLs of the tasks it gathers.\<close>

definition requests ::
  "(string \<Rightarrow> bool) \<Rightarrow> string list \<Rightarrow> string list \<Rightarrow> file_state \<Rightarrow> string list" where
  "requests netloc_ok brand_entries card_entries file =
     map fst (fst (process_cards netloc_ok brand_entries card_entries file))"

section \<open>Dictionaries: basic facts\<close>

lemma map_of_setitem: "map_of (setitem k v d) = (map_of d)(k \<mapsto> v)"
  by (induction d) (auto simp: fun_eq_iff)

lemma set_setitem: "set (setitem k v d) \<subseteq> insert (k, v) (set d)"
  by (induction d) auto

lemma map_of_fold_setitem:
  "map_of (fold (\<lambda>k acc. case m k of Some v \<Rightarrow> setitem k v acc | None \<Rightarrow> acc) ks d) x =
     (if x \<in> set ks \<and> m x \<noteq> None then m x else map_of d x)"
proof (induction ks arbitrary: d)
  case Nil
  show ?case by simp
next
  case (Cons k ks)
  show ?case
    by (cases "m k") (auto simp: Cons.IH map_of_setitem)
qed

lemma map_of_dict_update: "map_of (dict_update d other) = map_of d ++ map_of other"
proof
  fix x
  have "x \<in> set (map fst other) \<and> map_of other x \<noteq> None \<longleftrightarrow> map_of other x \<noteq> None"
    by (auto simp: map_of_eq_None_iff)
  then show "map_of (dict_update d other) x = (map_of d ++ map_of other) x"
    unfolding dict_update_def map_of_fold_setitem
    by (cases "map_of other x") (auto simp: map_add_def)
qed

section \<open>The merge engine: one step and the loop\<close>

lemma merge_loop_append:
  "merge_loop t m (xs @ ys) =
     (case merge_loop t m xs of Inl e \<Rightarrow> Inl e | Inr m' \<Rightarrow> merge_loop t m' ys)"
  by (induction xs arbitrary: m) (auto split: sum.splits)

lemma merge_one_other:
  assumes "merge_one t m c = Inr m'" and "map_of c ''name'' \<noteq> Some (JStr k)"
  shows "map_of m' k = map_of m k"
  using assms
  by (auto simp: merge_one_def map_of_setitem split: option.splits jval.splits)

lemma merge_one_same:
  assumes "map_of c ''name'' = Some (JStr k)"
  shows "merge_one t m c =
           Inr (setitem k (setitem ''updated_at'' (JStr t)
                  (case map_of m k of Some old \<Rightarrow> dict_update old c
                                    | None \<Rightarrow> setitem ''created_at'' (JStr t) c)) m)"
  using assms by (auto simp: merge_one_def split: option.splits)

lemma merge_one_updated_at:
  assumes "merge_one t m c = Inr m'" and "map_of c ''name'' = Some (JStr k)"
  shows "\<exists>r. map_of m' k = Some r \<and> map_of r ''updated_at'' = Some (JStr t)"
  using assms by (auto simp: merge_one_same map_of_setitem)

lemma merge_one_keeps_updated_at:
  assumes "merge_one t m c = Inr m'" and "map_of m k = Some r"
    and "map_of r ''updated_at'' = Some (JStr t)"
  shows "\<exists>r'. map_of m' k = Some r' \<and> map_of r' ''updated_at'' = Some (JStr t)"
proof (cases "map_of c ''name'' = Some (JStr k)")
  case True
  with assms(1) show ?thesis by (rule merge_one_updated_at)
next
  case False
  with assms show ?thesis by (simp add: merge_one_other)
qed

lemma merge_loop_keeps_updated_at:
  assumes "merge_loop t m new = Inr m'" and "map_of m k = Some r"
    and "map_of r ''updated_at'' = Some (JStr t)"
  shows "\<exists>r'. map_of m' k = Some r' \<and> map_of r' ''updated_at'' = Some (JStr t)"
  using assms
proof (induction new arbitrary: m r)
  case Nil
  then show ?case by simp
next
  case (Cons c new)
  from Cons.prems(1) obtain m1 where m1: "merge_one t m c = Inr m1" "merge_loop t m1 new = Inr m'"
    by (auto split: sum.splits)
  from merge_one_keeps_updated_at[OF m1(1) Cons.prems(2,3)]
  obtain r1 where "map_of m1 k = Some r1" "map_of r1 ''updated_at'' = Some (JStr t)" by blast
  with Cons.IH[OF m1(2)] show ?case by blast
qed

lemma merge_loop_updated_at:
  assumes "merge_loop t m new = Inr m'" and "c \<in> set new"
    and "map_of c ''name'' = Some (JStr k)"
  shows "\<exists>r. map_of m' k = Some r \<and> map_of r ''updated_at'' = Some (JStr t)"
  using assms
proof (induction new arbitrary: m)
  case Nil
  then show ?case by simp
next
  case (Cons c' new)
  from Cons.prems(1) obtain m1 where m1: "merge_one t m c' = Inr m1" "merge_loop t m1 new = Inr m'"
    by (auto split: sum.splits)
  show ?case
  proof (cases "c = c'")
    case True
    with merge_one_updated_at[OF m1(1)] Cons.prems(3)
    obtain r1 where "map_of m1 k = Some r1" "map_of r1 ''updated_at'' = Some (JStr t)" by blast
    with merge_loop_keeps_updated_at[OF m1(2)] show ?thesis by blast
  next
    case False
    with Cons.prems(2) have "c \<in> set new" by simp
    from Cons.IH[OF m1(2) this Cons.prems(3)] show ?thesis .
  qed
qed

lemma merge_one_created_at:
  assumes "merge_one t m c = Inr m'" and "map_of m k = Some r"
    and "map_of c ''name'' = Some (JStr k) \<longrightarrow> map_of c ''created_at'' = None"
  shows "\<exists>r'. map_of m' k = Some r' \<and> map_of r' ''created_at'' = map_of r ''created_at''"
proof (cases "map_of c ''name'' = Some (JStr k)")
  case True
  with assms show ?thesis
    by (auto simp: merge_one_same map_of_setitem map_of_dict_update map_add_def)
next
  case False
  with assms show ?thesis by (simp add: merge_one_other)
qed

lemma merge_loop_created_at:
  assumes "merge_loop t m new = Inr m'" and "map_of m k = Some r"
    and "\<forall>c\<in>set new. map_of c ''name'' = Some (JStr k) \<longrightarrow> map_of c ''created_at'' = None"
  shows "\<exists>r'. map_of m' k = Some r' \<and> map_of r' ''created_at'' = map_of r ''created_at''"
  using assms
proof (induction new arbitrary: m r)
  case Nil
  then show ?case by simp
next
  case (Cons c new)
  from Cons.prems(1) obtain m1 where m1: "merge_one t m c = Inr m1" "merge_loop t m1 new = Inr m'"
    by (auto split: sum.splits)
  from Cons.prems(3) have c: "map_of c ''name'' = Some (JStr k) \<longrightarrow> map_of c ''created_at'' = None"
    and rest: "\<forall>c\<in>set new. map_of c ''name'' = Some (JStr k) \<longrightarrow> map_of c ''created_at'' = None"
    by simp_all
  from merge_one_created_at[OF m1(1) Cons.prems(2) c]
  obtain r1 where r1: "map_of m1 k = Some r1" "map_of r1 ''created_at'' = map_of r ''created_at''"
    by blast
  from Cons.IH[OF m1(2) r1(1) rest] r1(2) show ?case by auto
qed

section \<open>Merging a record whose name is in the store\<close>

lemma merge_cards_Inr:
  "merge_cards clk existing new = (Inr out, clk') \<longleftrightarrow>
     (\<exists>merged. merge_loop (clk 0) existing new = Inr merged \<and> out = map snd merged) \<and>
     clk' = (\<lambda>n. clk (Suc n))"
  by (auto simp: merge_cards_def now_isoformat_def split: sum.splits)

text \<open>
  Claim C1, as amended. When a new record carries the name of a record of the existing
  mapping, and no record of that name in the batch brings a \<^verbatim>\<open>created_at\<close> field of its
  own, the merged record keeps the \<^verbatim>\<open>created_at\<close> of the existing record and its
  \<^verbatim>\<open>updated_at\<close> is the merge time stamp. The time stamp is the single reading of the
  clock that the call takes: every record that the batch updates or inserts has it as
  its \<^verbatim>\<open>updated_at\<close>, and the call leaves the clock one reading further.
\<close>

theorem merge_existing_name:
  assumes "merge_cards clk existing new = (Inr out, clk')"
    and "map_of existing name = Some old"
    and "c \<in> set new" and "map_of c ''name'' = Some (JStr name)"
    and "\<forall>c'\<in>set new. map_of c' ''name'' = Some (JStr name) \<longrightarrow> map_of c' ''created_at'' = None"
  shows "\<exists>merged r.
           merge_loop (clk 0) existing new = Inr merged \<and> out = map snd merged \<and>
           map_of merged name = Some r \<and> r \<in> set out \<and>
           map_of r ''created_at'' = map_of old ''created_at'' \<and>
           map_of r ''updated_at'' = Some (JStr (clk 0)) \<and>
           (\<forall>c'\<in>set new. \<forall>name'. map_of c' ''name'' = Some (JStr name') \<longrightarrow>
              (\<exists>r'. map_of merged name' = Some r' \<and>
                    map_of r' ''updated_at'' = Some (JStr (clk 0)))) \<and>
           clk' = (\<lambda>n. clk (Suc n))"
proof -
  from assms(1) obtain merged where m: "merge_loop (clk 0) existing new = Inr merged"
    "out = map snd merged" and clk': "clk' = (\<lambda>n. clk (Suc n))"
    by (auto simp: merge_cards_Inr)
  from merge_loop_created_at[OF m(1) assms(2) assms(5)]
  obtain r where r: "map_of merged name = Some r"
    "map_of r ''created_at'' = map_of old ''created_at''" by blast
  from merge_loop_updated_at[OF m(1) assms(3,4)] r(1)
  have u: "map_of r ''updated_at'' = Some (JStr (clk 0))" by auto
  from r(1) have "(name, r) \<in> set merged" by (rule map_of_SomeD)
  then have mem: "r \<in> set out" unfolding m(2) by force
  have shared: "\<forall>c'\<in>set new. \<forall>name'. map_of c' ''name'' = Some (JStr name') \<longrightarrow>
      (\<exists>r'. map_of merged name' = Some r' \<and> map_of r' ''updated_at'' = Some (JStr (clk 0)))"
    using merge_loop_updated_at[OF m(1)] by blast
  from m r u mem shared clk' show ?thesis by blast
qed

text \<open>
  The claim as stated, for every list of new records, fails: line 39 copies every field
  of the new record, a \<^verbatim>\<open>created_at\<close> included.
\<close>

theorem merge_existing_name_counterexample:
  "map_of [(''Card A'', [(''name'', JStr ''Card A''),
                         (''created_at'', JStr ''2024-01-01T09:00:00''),
                         (''updated_at'', JStr ''2024-01-01T09:00:00'')])] ''Card A''
     = Some [(''name'', JStr ''Card A''),
             (''created_at'', JStr ''2024-01-01T09:00:00''),
             (''updated_at'', JStr ''2024-01-01T09:00:00'')] \<and>
   fst (merge_cards (\<lambda>n. ''2024-06-01T12:00:00'')
          [(''Card A'', [(''name'', JStr ''Card A''),
                         (''created_at'', JStr ''2024-01-01T09:00:00''),
                         (''updated_at'', JStr ''2024-01-01T09:00:00'')])]
          [[(''name'', JStr ''Card A''), (''created_at'', JStr ''1999-12-31T00:00:00'')]])
     = Inr [[(''name'', JStr ''Card A''),
             (''created_at'', JStr ''1999-12-31T00:00:00''),
             (''updated_at'', JStr ''2024-06-01T12:00:00'')]]"
  by (simp add: merge_cards_def now_isoformat_def merge_one_def dict_update_def)

text \<open>The theorem at a store of one record and a batch of two.\<close>

theorem merge_existing_name_witness:
  "fst (merge_cards (\<lambda>n. if n = 0 then ''2024-06-01T12:00:00'' else ''2024-06-01T12:00:07'')
     [(''Card A'', [(''name'', JStr ''Card A''), (''annual_fee'', JStr ''X''),
                    (''created_at'', JStr ''2024-01-01T09:00:00''),
                    (''updated_at'', JStr ''2024-01-01T09:00:00'')])]
     [[(''name'', JStr ''Card A''), (''annual_fee'', JStr ''Y'')], [(''name'', JStr ''Card B'')]])
   = Inr [[(''name'', JStr ''Card A''), (''annual_fee'', JStr ''Y''),
           (''created_at'', JStr ''2024-01-01T09:00:00''),
           (''updated_at'', JStr ''2024-06-01T12:00:00'')],
          [(''name'', JStr ''Card B''), (''created_at'', JStr ''2024-06-01T12:00:00''),
           (''updated_at'', JStr ''2024-06-01T12:00:00'')]] \<and>
   (\<exists>merged r.
      merge_loop ''2024-06-01T12:00:00''
        [(''Card A'', [(''name'', JStr ''Card A''), (''annual_fee'', JStr ''X''),
                       (''created_at'', JStr ''2024-01-01T09:00:00''),
                       (''updated_at'', JStr ''2024-01-01T09:00:00'')])]
        [[(''name'', JStr ''Card A''), (''annual_fee'', JStr ''Y'')], [(''name'', JStr ''Card B'')]]
        = Inr merged \<and>
      map_of merged ''Card A'' = Some r \<and>
      map_of r ''created_at'' = Some (JStr ''2024-01-01T09:00:00'') \<and>
      map_of r ''updated_at'' = Some (JStr ''2024-06-01T12:00:00''))"
proof -
  let ?clk = "\<lambda>n::nat. if n = 0 then ''2024-06-01T12:00:00'' else ''2024-06-01T12:00:07''"
  let ?old = "[(''name'', JStr ''Card A''), (''annual_fee'', JStr ''X''),
               (''created_at'', JStr ''2024-01-01T09:00:00''),
               (''updated_at'', JStr ''2024-01-01T09:00:00'')]"
  let ?ex = "[(''Card A'', ?old)]"
  let ?c = "[(''name'', JStr ''Card A''), (''annual_fee'', JStr ''Y'')]"
  let ?new = "[?c, [(''name'', JStr ''Card B'')]]"
  let ?out = "[[(''name'', JStr ''Card A''), (''annual_fee'', JStr ''Y''),
           (''created_at'', JStr ''2024-01-01T09:00:00''),
           (''updated_at'', JStr ''2024-06-01T12:00:00'')],
          [(''name'', JStr ''Card B''), (''created_at'', JStr ''2024-06-01T12:00:00''),
           (''updated_at'', JStr ''2024-06-01T12:00:00'')]]"
  have h1: "merge_cards ?clk ?ex ?new = (Inr ?out, \<lambda>n. ?clk (Suc n))"
    by (simp add: merge_cards_def now_isoformat_def merge_one_def dict_update_def)
  have h2: "map_of ?ex ''Card A'' = Some ?old" by simp
  have h3: "?c \<in> set ?new" by simp
  have h4: "map_of ?c ''name'' = Some (JStr ''Card A'')" by simp
  have h5: "\<forall>c'\<in>set ?new. map_of c' ''name'' = Some (JStr ''Card A'') \<longrightarrow>
              map_of c' ''created_at'' = None" by simp
  have t: "?clk 0 = ''2024-06-01T12:00:00''" by simp
  have o: "map_of ?old ''created_at'' = Some (JStr ''2024-01-01T09:00:00'')" by simp
  from merge_existing_name[OF h1 h2 h3 h4 h5] obtain merged r where
    "merge_loop (?clk 0) ?ex ?new = Inr merged" "map_of merged ''Card A'' = Some r"
    "map_of r ''created_at'' = map_of ?old ''created_at''"
    "map_of r ''updated_at'' = Some (JStr (?clk 0))"
    by blast
  then have "merge_loop ''2024-06-01T12:00:00'' ?ex ?new = Inr merged \<and>
      map_of merged ''Card A'' = Some r \<and>
      map_of r ''created_at'' = Some (JStr ''2024-01-01T09:00:00'') \<and>
      map_of r ''updated_at'' = Some (JStr ''2024-06-01T12:00:00'')"
    unfolding t o by blast
  then have "\<exists>merged r. merge_loop ''2024-06-01T12:00:00'' ?ex ?new = Inr merged \<and>
      map_of merged ''Card A'' = Some r \<and>
      map_of r ''created_at'' = Some (JStr ''2024-01-01T09:00:00'') \<and>
      map_of r ''updated_at'' = Some (JStr ''2024-06-01T12:00:00'')"
    by blast
  moreover from h1 have "fst (merge_cards ?clk ?ex ?new) = Inr ?out" by simp
  ultimately show ?thesis by blast
qed

section \<open>Merging a record whose name is new\<close>

lemma merge_loop_other:
  assumes "merge_loop t m new = Inr m'"
    and "\<forall>p\<in>set new. map_of p ''name'' \<noteq> Some (JStr k)"
  shows "map_of m' k = map_of m k"
  using assms
proof (induction new arbitrary: m)
  case Nil
  then show ?case by simp
next
  case (Cons c new)
  from Cons.prems(1) obtain m1 where m1: "merge_one t m c = Inr m1" "merge_loop t m1 new = Inr m'"
    by (auto split: sum.splits)
  from Cons.prems(2) have "map_of c ''name'' \<noteq> Some (JStr k)" by simp
  with m1(1) have "map_of m1 k = map_of m k" by (rule merge_one_other)
  moreover from Cons.prems(2) have "\<forall>p\<in>set new. map_of p ''name'' \<noteq> Some (JStr k)" by simp
  with m1(2) have "map_of m' k = map_of m1 k" by (rule Cons.IH)
  ultimately show ?case by simp
qed

lemma merge_loop_split:
  assumes "merge_loop t m (pre @ c # post) = Inr m'"
  obtains m0 m1 where "merge_loop t m pre = Inr m0" "merge_one t m0 c = Inr m1"
    "merge_loop t m1 post = Inr m'" "merge_loop t m (pre @ [c]) = Inr m1"
proof -
  from assms obtain m0 where m0: "merge_loop t m pre = Inr m0" "merge_loop t m0 (c # post) = Inr m'"
    by (auto simp: merge_loop_append split: sum.splits)
  from m0(2) obtain m1 where m1: "merge_one t m0 c = Inr m1" "merge_loop t m1 post = Inr m'"
    by (auto split: sum.splits)
  from m0(1) m1(1) have "merge_loop t m (pre @ [c]) = Inr m1"
    by (simp add: merge_loop_append)
  with m0(1) m1 that show thesis by blast
qed


text \<open>
  Claim C2. A new record \<open>c\<close> whose name is neither in the existing mapping nor the
  name of an earlier record of the batch is inserted (lines 44-46). The inserted
  record is \<open>c\<close> with \<^verbatim>\<open>created_at\<close> and \<^verbatim>\<open>updated_at\<close> both set to the merge time stamp.
  In the result of the whole batch the record of that name still has the merge time
  stamp as \<^verbatim>\<open>updated_at\<close>; it has it as \<^verbatim>\<open>created_at\<close> when no later record of that name
  brings a \<^verbatim>\<open>created_at\<close>, and it is the inserted record when no later record has that
  name.
\<close>

theorem merge_new_name:
  assumes "merge_cards clk existing (pre @ c # post) = (Inr out, clk')"
    and "map_of existing name = None"
    and "\<forall>p\<in>set pre. map_of p ''name'' \<noteq> Some (JStr name)"
    and "map_of c ''name'' = Some (JStr name)"
  shows "\<exists>mid inserted merged r.
           merge_loop (clk 0) existing (pre @ [c]) = Inr mid \<and>
           map_of mid name = Some inserted \<and>
           map_of inserted =
             (map_of c)(''created_at'' \<mapsto> JStr (clk 0), ''updated_at'' \<mapsto> JStr (clk 0)) \<and>
           map_of inserted ''created_at'' = map_of inserted ''updated_at'' \<and>
           merge_loop (clk 0) existing (pre @ c # post) = Inr merged \<and> out = map snd merged \<and>
           map_of merged name = Some r \<and> r \<in> set out \<and>
           map_of r ''updated_at'' = Some (JStr (clk 0)) \<and>
           ((\<forall>q\<in>set post. map_of q ''name'' = Some (JStr name) \<longrightarrow> map_of q ''created_at'' = None)
              \<longrightarrow> map_of r ''created_at'' = Some (JStr (clk 0))) \<and>
           ((\<forall>q\<in>set post. map_of q ''name'' \<noteq> Some (JStr name)) \<longrightarrow> r = inserted)"
proof -
  let ?t = "clk 0"
  let ?ins = "setitem ''updated_at'' (JStr ?t) (setitem ''created_at'' (JStr ?t) c)"
  from assms(1) obtain merged where m: "merge_loop ?t existing (pre @ c # post) = Inr merged"
    "out = map snd merged"
    by (auto simp: merge_cards_Inr)
  from m(1) obtain m0 m1 where s: "merge_loop ?t existing pre = Inr m0" "merge_one ?t m0 c = Inr m1"
    "merge_loop ?t m1 post = Inr merged" "merge_loop ?t existing (pre @ [c]) = Inr m1"
    by (rule merge_loop_split)
  from merge_loop_other[OF s(1) assms(3)] assms(2) have "map_of m0 name = None" by simp
  with s(2) assms(4) have m1: "m1 = setitem name ?ins m0"
    by (simp add: merge_one_same)
  then have ins: "map_of m1 name = Some ?ins" by (simp add: map_of_setitem)
  have fields: "map_of ?ins = (map_of c)(''created_at'' \<mapsto> JStr ?t, ''updated_at'' \<mapsto> JStr ?t)"
    by (simp add: map_of_setitem)
  then have eq: "map_of ?ins ''created_at'' = map_of ?ins ''updated_at''" by simp
  have upd: "map_of ?ins ''updated_at'' = Some (JStr ?t)" using fields by simp
  from merge_loop_keeps_updated_at[OF s(3) ins upd]
  obtain r where r: "map_of merged name = Some r" "map_of r ''updated_at'' = Some (JStr ?t)"
    by blast
  from r(1) have "(name, r) \<in> set merged" by (rule map_of_SomeD)
  then have mem: "r \<in> set out" unfolding m(2) by force
  have cr: "map_of r ''created_at'' = Some (JStr ?t)"
    if "\<forall>q\<in>set post. map_of q ''name'' = Some (JStr name) \<longrightarrow> map_of q ''created_at'' = None"
    using merge_loop_created_at[OF s(3) ins that] r(1) fields by auto
  have same: "r = ?ins" if "\<forall>q\<in>set post. map_of q ''name'' \<noteq> Some (JStr name)"
    using merge_loop_other[OF s(3) that] r(1) ins by simp
  from s(4) ins fields eq m r mem cr same show ?thesis by blast
qed

text \<open>The theorem at a batch whose second record has a new name.\<close>

theorem merge_new_name_witness:
  "fst (merge_cards (\<lambda>n. if n = 0 then ''2024-06-01T12:00:00'' else ''2024-06-01T12:00:07'')
     [(''Card A'', [(''name'', JStr ''Card A''),
                    (''created_at'', JStr ''2024-01-01T09:00:00''),
                    (''updated_at'', JStr ''2024-01-01T09:00:00'')])]
     [[(''name'', JStr ''Card A'')], [(''name'', JStr ''Card B''), (''rank'', JStr ''1'')]])
   = Inr [[(''name'', JStr ''Card A''),
           (''created_at'', JStr ''2024-01-01T09:00:00''),
           (''updated_at'', JStr ''2024-06-01T12:00:00'')],
          [(''name'', JStr ''Card B''), (''rank'', JStr ''1''),
           (''created_at'', JStr ''2024-06-01T12:00:00''),
           (''updated_at'', JStr ''2024-06-01T12:00:00'')]] \<and>
   (\<exists>r. r \<in> set [[(''name'', JStr ''Card A''),
           (''created_at'', JStr ''2024-01-01T09:00:00''),
           (''updated_at'', JStr ''2024-06-01T12:00:00'')],
          [(''name'', JStr ''Card B''), (''rank'', JStr ''1''),
           (''created_at'', JStr ''2024-06-01T12:00:00''),
           (''updated_at'', JStr ''2024-06-01T12:00:00'')]] \<and>
        map_of r ''name'' = Some (JStr ''Card B'') \<and>
        map_of r ''created_at'' = Some (JStr ''2024-06-01T12:00:00'') \<and>
        map_of r ''updated_at'' = Some (JStr ''2024-06-01T12:00:00''))"
proof -
  let ?clk = "\<lambda>n::nat. if n = 0 then ''2024-06-01T12:00:00'' else ''2024-06-01T12:00:07''"
  let ?ex = "[(''Card A'', [(''name'', JStr ''Card A''),
                    (''created_at'', JStr ''2024-01-01T09:00:00''),
                    (''updated_at'', JStr ''2024-01-01T09:00:00'')])]"
  let ?pre = "[[(''name'', JStr ''Card A'')]]"
  let ?c = "[(''name'', JStr ''Card B''), (''rank'', JStr ''1'')]"
  let ?out = "[[(''name'', JStr ''Card A''),
           (''created_at'', JStr ''2024-01-01T09:00:00''),
           (''updated_at'', JStr ''2024-06-01T12:00:00'')],
          [(''name'', JStr ''Card B''), (''rank'', JStr ''1''),
           (''created_at'', JStr ''2024-06-01T12:00:00''),
           (''updated_at'', JStr ''2024-06-01T12:00:00'')]]"
  have h1: "merge_cards ?clk ?ex (?pre @ ?c # []) = (Inr ?out, \<lambda>n. ?clk (Suc n))"
    by (simp add: merge_cards_def now_isoformat_def merge_one_def dict_update_def)
  have h2: "map_of ?ex ''Card B'' = None" by simp
  have h3: "\<forall>p\<in>set ?pre. map_of p ''name'' \<noteq> Some (JStr ''Card B'')" by simp
  have h4: "map_of ?c ''name'' = Some (JStr ''Card B'')" by simp
  have t: "?clk 0 = ''2024-06-01T12:00:00''" by simp
  from merge_new_name[OF h1 h2 h3 h4] obtain inserted r where
    i: "map_of inserted = (map_of ?c)(''created_at'' \<mapsto> JStr (?clk 0), ''updated_at'' \<mapsto> JStr (?clk 0))"
    and r: "r \<in> set ?out" "(\<forall>q\<in>set []. map_of q ''name'' \<noteq> Some (JStr ''Card B'')) \<longrightarrow> r = inserted"
    by blast
  from r(2) have "r = inserted" by simp
  with i have "map_of r ''name'' = Some (JStr ''Card B'') \<and>
        map_of r ''created_at'' = Some (JStr ''2024-06-01T12:00:00'') \<and>
        map_of r ''updated_at'' = Some (JStr ''2024-06-01T12:00:00'')"
    by simp
  with r(1) have "\<exists>r. r \<in> set ?out \<and> map_of r ''name'' = Some (JStr ''Card B'') \<and>
        map_of r ''created_at'' = Some (JStr ''2024-06-01T12:00:00'') \<and>
        map_of r ''updated_at'' = Some (JStr ''2024-06-01T12:00:00'')"
    by blast
  moreover from h1 have "fst (merge_cards ?clk ?ex [[(''name'', JStr ''Card A'')], ?c]) = Inr ?out"
    by simp
  ultimately show ?thesis by blast
qed

section \<open>The shallow overwrite\<close>

text \<open>
  Claim C4. Let \<open>old\<close> be the record under a name when a new record \<open>c\<close> of that name is
  merged (the record of the existing mapping when \<open>pre\<close> is empty). In the merged
  record, every field of \<open>c\<close> has the value \<open>c\<close> gives it and every field that \<open>c\<close> does
  not have keeps its value in \<open>old\<close>, except \<^verbatim>\<open>updated_at\<close>, which is the merge time
  stamp. The records under other names are as before.
\<close>

theorem merge_shallow_overwrite:
  assumes "merge_loop (clk 0) existing pre = Inr before"
    and "map_of before name = Some old"
    and "map_of c ''name'' = Some (JStr name)"
  shows "\<exists>out after r.
           merge_cards clk existing (pre @ [c]) = (Inr out, \<lambda>n. clk (Suc n)) \<and>
           merge_loop (clk 0) existing (pre @ [c]) = Inr after \<and> out = map snd after \<and>
           map_of after name = Some r \<and> r \<in> set out \<and>
           (\<forall>f v. f \<noteq> ''updated_at'' \<and> map_of c f = Some v \<longrightarrow> map_of r f = Some v) \<and>
           (\<forall>f. f \<noteq> ''updated_at'' \<and> map_of c f = None \<longrightarrow> map_of r f = map_of old f) \<and>
           map_of r ''updated_at'' = Some (JStr (clk 0)) \<and>
           (\<forall>k. k \<noteq> name \<longrightarrow> map_of after k = map_of before k)"
proof -
  let ?t = "clk 0"
  let ?r = "setitem ''updated_at'' (JStr ?t) (dict_update old c)"
  let ?after = "setitem name ?r before"
  from assms(2,3) have one: "merge_one ?t before c = Inr ?after"
    by (simp add: merge_one_same)
  with assms(1) have loop: "merge_loop ?t existing (pre @ [c]) = Inr ?after"
    by (simp add: merge_loop_append)
  then have mc: "merge_cards clk existing (pre @ [c]) = (Inr (map snd ?after), \<lambda>n. clk (Suc n))"
    by (simp add: merge_cards_Inr)
  have at: "map_of ?after name = Some ?r" by (simp add: map_of_setitem)
  then have "(name, ?r) \<in> set ?after" by (rule map_of_SomeD)
  then have mem: "?r \<in> set (map snd ?after)" by force
  have new: "\<forall>f v. f \<noteq> ''updated_at'' \<and> map_of c f = Some v \<longrightarrow> map_of ?r f = Some v"
    by (simp add: map_of_setitem map_of_dict_update map_add_def)
  have kept: "\<forall>f. f \<noteq> ''updated_at'' \<and> map_of c f = None \<longrightarrow> map_of ?r f = map_of old f"
    by (simp add: map_of_setitem map_of_dict_update map_add_def)
  have upd: "map_of ?r ''updated_at'' = Some (JStr ?t)" by (simp add: map_of_setitem)
  have frame: "\<forall>k. k \<noteq> name \<longrightarrow> map_of ?after k = map_of before k"
    by (simp add: map_of_setitem)
  from mc loop at mem new kept upd frame show ?thesis by blast
qed

text \<open>
  The theorem at the scenario of the specification: the stored record has annual fee
  X, the scraped one annual fee Y.
\<close>

theorem merge_shallow_overwrite_witness:
  "fst (merge_cards (\<lambda>n. ''2024-06-01T12:00:00'')
     [(''Card A'', [(''annual_fee'', JStr ''X''), (''rank'', JStr ''3''),
                    (''created_at'', JStr ''2024-01-01T09:00:00''),
                    (''updated_at'', JStr ''2024-01-01T09:00:00'')])]
     [[(''name'', JStr ''Card A''), (''annual_fee'', JStr ''Y'')]])
   = Inr [[(''annual_fee'', JStr ''Y''), (''rank'', JStr ''3''),
           (''created_at'', JStr ''2024-01-01T09:00:00''),
           (''updated_at'', JStr ''2024-06-01T12:00:00''),
           (''name'', JStr ''Card A'')]] \<and>
   (\<exists>r. r \<in> set [[(''annual_fee'', JStr ''Y''), (''rank'', JStr ''3''),
           (''created_at'', JStr ''2024-01-01T09:00:00''),
           (''updated_at'', JStr ''2024-06-01T12:00:00''),
           (''name'', JStr ''Card A'')]] \<and>
        map_of r ''annual_fee'' = Some (JStr ''Y'') \<and>
        map_of r ''rank'' = Some (JStr ''3'') \<and>
        map_of r ''updated_at'' = Some (JStr ''2024-06-01T12:00:00''))"
proof -
  let ?clk = "\<lambda>n::nat. ''2024-06-01T12:00:00''"
  let ?old = "[(''annual_fee'', JStr ''X''), (''rank'', JStr ''3''),
                    (''created_at'', JStr ''2024-01-01T09:00:00''),
                    (''updated_at'', JStr ''2024-01-01T09:00:00'')]"
  let ?ex = "[(''Card A'', ?old)]"
  let ?c = "[(''name'', JStr ''Card A''), (''annual_fee'', JStr ''Y'')]"
  let ?out = "[[(''annual_fee'', JStr ''Y''), (''rank'', JStr ''3''),
           (''created_at'', JStr ''2024-01-01T09:00:00''),
           (''updated_at'', JStr ''2024-06-01T12:00:00''),
           (''name'', JStr ''Card A'')]]"
  have h1: "merge_loop (?clk 0) ?ex [] = Inr ?ex" by simp
  have h2: "map_of ?ex ''Card A'' = Some ?old" by simp
  have h3: "map_of ?c ''name'' = Some (JStr ''Card A'')" by simp
  have e: "merge_cards ?clk ?ex [?c] = (Inr ?out, \<lambda>n. ?clk (Suc n))"
    by (simp add: merge_cards_def now_isoformat_def merge_one_def dict_update_def)
  have c1: "''annual_fee'' \<noteq> ''updated_at'' \<and> map_of ?c ''annual_fee'' = Some (JStr ''Y'')" by simp
  have c2: "''rank'' \<noteq> ''updated_at'' \<and> map_of ?c ''rank'' = None" by simp
  have o: "map_of ?old ''rank'' = Some (JStr ''3'')" by simp
  from merge_shallow_overwrite[OF h1 h2 h3]
  have "\<exists>r. r \<in> set ?out \<and>
        map_of r ''annual_fee'' = Some (JStr ''Y'') \<and>
        map_of r ''rank'' = Some (JStr ''3'') \<and>
        map_of r ''updated_at'' = Some (JStr ''2024-06-01T12:00:00'')"
  proof (elim exE conjE, goal_cases)
    case (1 out after r)
    from "1"(1) e have out: "out = ?out" by simp
    from "1"(6)[rule_format, OF c1] have f1: "map_of r ''annual_fee'' = Some (JStr ''Y'')" .
    from "1"(7)[rule_format, OF c2] o have f2: "map_of r ''rank'' = Some (JStr ''3'')" by simp
    from "1"(5) out f1 f2 "1"(8) show ?case by blast
  qed
  moreover from e have "fst (merge_cards ?clk ?ex [?c]) = Inr ?out" by simp
  ultimately show ?thesis by blast
qed

section \<open>Records without a name\<close>

lemma merge_loop_filter_named:
  "merge_loop t m new = merge_loop t m (filter (\<lambda>c. map_of c ''name'' \<noteq> None) new)"
proof (induction new arbitrary: m)
  case Nil
  show ?case by simp
next
  case (Cons c new)
  show ?case
  proof (cases "map_of c ''name''")
    case None
    then have "merge_one t m c = Inr m" by (simp add: merge_one_def)
    with None Cons.IH show ?thesis by simp
  next
    case (Some v)
    with Cons.IH show ?thesis by (simp split: sum.splits)
  qed
qed

section \<open>The extractor: the fields of a record\<close>

lemma items_loop_length:
  "items_loop card_items cards = Inr cards' \<Longrightarrow> length cards' = length cards + length card_items"
  by (induction card_items arbitrary: cards) (auto split: sum.splits)

lemma extract_image_other:
  "extract_image item crd = Inr crd' \<Longrightarrow> k \<noteq> ''image_url'' \<Longrightarrow> map_of crd' k = map_of crd k"
  by (auto simp: extract_image_def map_of_setitem split: option.splits sum.splits)

lemma specs_loop_other:
  "specs_loop specs crd = Inr crd' \<Longrightarrow> k \<notin> {''brands'', ''annual_fee'', ''point_rate''} \<Longrightarrow>
     map_of crd' k = map_of crd k"
proof (induction specs arbitrary: crd)
  case Nil
  then show ?case by simp
next
  case (Cons spec specs)
  from Cons.prems(1) obtain crd1 where
    1: "specs_loop specs crd1 = Inr crd'" and
    2: "crd1 = crd \<or> (\<exists>k' v. k' \<in> {''brands'', ''annual_fee'', ''point_rate''} \<and> crd1 = setitem k' v crd)"
    by (auto simp: Let_def split: option.splits sum.splits if_splits)
  from Cons.IH[OF 1 Cons.prems(2)] have "map_of crd' k = map_of crd1 k" .
  also from 2 Cons.prems(2) have "map_of crd1 k = map_of crd k"
    by (auto simp: map_of_setitem)
  finally show ?case .
qed

lemma extract_name_fields:
  assumes "extract_name item crd = Inr crd'"
  shows "map_of crd' ''created_at'' = map_of crd ''created_at''"
    and "map_of crd' ''name'' = map_of crd ''name'' \<or> (\<exists>s. map_of crd' ''name'' = Some (JStr s))"
  using assms
  by (auto simp: extract_name_def map_of_setitem split: option.splits sum.splits)

lemma extract_rest_other:
  "k \<notin> {''rank'', ''introduction_title'', ''introduction_text'', ''features''} \<Longrightarrow>
     map_of (extract_features item (extract_catch item (extract_rank item crd))) k = map_of crd k"
  by (auto simp: extract_features_def extract_catch_def extract_rank_def Let_def map_of_setitem
      split: option.splits)

lemma extract_item_fields:
  assumes "extract_item item = Inr crd"
  shows "map_of crd ''created_at'' = None"
    and "map_of crd ''name'' = None \<or> (\<exists>s. map_of crd ''name'' = Some (JStr s))"
proof -
  from assms obtain crd1 crd2 crd3 where
    1: "extract_image item [] = Inr crd1" and
    2: "specs_loop (find_all ''li'' ''p-itemBox_data_spec_list'' item) crd1 = Inr crd2" and
    3: "extract_name item crd2 = Inr crd3" and
    4: "crd = extract_features item (extract_catch item (extract_rank item crd3))"
    by (auto simp: extract_item_def split: sum.splits)
  have c1: "map_of crd1 ''created_at'' = None" "map_of crd1 ''name'' = None"
    using extract_image_other[OF 1] by simp_all
  have c2: "map_of crd2 ''created_at'' = None" "map_of crd2 ''name'' = None"
    using specs_loop_other[OF 2] c1 by simp_all
  have c3: "map_of crd3 ''created_at'' = None"
    "map_of crd3 ''name'' = None \<or> (\<exists>s. map_of crd3 ''name'' = Some (JStr s))"
    using extract_name_fields[OF 3] c2 by auto
  show "map_of crd ''created_at'' = None"
    unfolding 4 using c3(1) by (simp add: extract_rest_other)
  show "map_of crd ''name'' = None \<or> (\<exists>s. map_of crd ''name'' = Some (JStr s))"
    unfolding 4 using c3(2) by (simp add: extract_rest_other)
qed

lemma items_loop_fields:
  assumes "items_loop card_items cards = Inr cards'"
    and "\<forall>crd\<in>set cards. map_of crd ''created_at'' = None \<and>
           (map_of crd ''name'' = None \<or> (\<exists>s. map_of crd ''name'' = Some (JStr s)))"
  shows "\<forall>crd\<in>set cards'. map_of crd ''created_at'' = None \<and>
           (map_of crd ''name'' = None \<or> (\<exists>s. map_of crd ''name'' = Some (JStr s)))"
  using assms
proof (induction card_items arbitrary: cards)
  case Nil
  then show ?case by simp
next
  case (Cons item card_items)
  from Cons.prems(1) obtain crd where
    1: "extract_item item = Inr crd" and 2: "items_loop card_items (cards @ [crd]) = Inr cards'"
    by (auto split: sum.splits)
  show ?case
    by (rule Cons.IH[OF 2]) (use Cons.prems(2) extract_item_fields[OF 1] in auto)
qed

lemma fetch_and_extract_fields:
  assumes "fetch_and_extract session url = Inr cards" and "crd \<in> set cards"
  shows "map_of crd ''created_at'' = None \<and>
         (map_of crd ''name'' = None \<or> (\<exists>s. map_of crd ''name'' = Some (JStr s)))"
proof -
  from assms(1) obtain soup where "extract_cards soup = Inr cards"
    by (auto simp: fetch_and_extract_def split: response.splits sum.splits)
  then have "items_loop (find_all ''li'' ''p-planSearchList_item'' soup) [] = Inr cards"
    by (simp add: extract_cards_def)
  from items_loop_fields[OF this] assms(2) show ?thesis by simp
qed

lemma get_card_info_fields:
  assumes "crd \<in> set (get_card_info session url)"
  shows "map_of crd ''created_at'' = None \<and>
         (map_of crd ''name'' = None \<or> (\<exists>s. map_of crd ''name'' = Some (JStr s)))"
proof (cases "fetch_and_extract session url")
  case (Inl e)
  with assms show ?thesis by (simp add: get_card_info_def)
next
  case (Inr cards)
  with assms have "crd \<in> set cards" by (simp add: get_card_info_def)
  with Inr show ?thesis by (rule fetch_and_extract_fields)
qed

lemma process_page_group_fields:
  assumes "crd \<in> set (process_page_group session pages)"
  shows "map_of crd ''created_at'' = None \<and>
         (map_of crd ''name'' = None \<or> (\<exists>s. map_of crd ''name'' = Some (JStr s)))"
  using assms get_card_info_fields by (auto simp: process_page_group_def)

text \<open>
  Claim C3, as amended. A record without a name has no effect on a merge: the merge of
  a batch is the merge of its named records. The extractor does not leave such a
  record out: when it returns the records of a page, it returns one for every listing
  item of the page (line 133 appends the record whether or not lines 103-108 found a
  name).
\<close>

theorem nameless_records:
  "merge_cards clk existing new_cards =
     merge_cards clk existing (filter (\<lambda>c. map_of c ''name'' \<noteq> None) new_cards) \<and>
   (extract_cards soup = Inr cards \<longrightarrow>
      length cards = length (find_all ''li'' ''p-planSearchList_item'' soup))"
proof
  show "merge_cards clk existing new_cards =
     merge_cards clk existing (filter (\<lambda>c. map_of c ''name'' \<noteq> None) new_cards)"
    unfolding merge_cards_def using merge_loop_filter_named[of _ existing new_cards] by simp
  show "extract_cards soup = Inr cards \<longrightarrow>
      length cards = length (find_all ''li'' ''p-planSearchList_item'' soup)"
    using items_loop_length[of _ "[]" cards] by (simp add: extract_cards_def)
qed

text \<open>
  The claim as stated fails for the extractor: the second item of this page has no
  name link, and its record is in the list that \<^verbatim>\<open>get_card_info\<close> returns.
\<close>

theorem nameless_records_counterexample:
  "get_card_info
     (\<lambda>url. Decoded (Tag ''[document]'' [] [Tag ''ul'' [] [
        Tag ''li'' [(''class'', ''p-planSearchList_item'')]
          [Tag ''div'' [(''class'', ''card-spec-blk'')]
             [Tag ''a'' [(''class'', ''p-planSearchList_name_link''), (''href'', ''/card/1'')]
                [NavigableString ''Card A'']]],
        Tag ''li'' [(''class'', ''p-planSearchList_item'')]
          [Tag ''p'' [(''class'', ''p-itemBox_catch_ttl'')] [NavigableString ''New!'']]]]))
     ''https://kakaku.com/card/list/?cc_page=1''
   = [[(''name'', JStr ''Card A''), (''detail_url'', JStr ''https://kakaku.com/card/1''),
       (''features'', JList [])],
      [(''introduction_title'', JStr ''New!''), (''features'', JList [])]] \<and>
   map_of [(''introduction_title'', JStr ''New!''), (''features'', JList [])] ''name'' = None"
  by code_simp

text \<open>The theorem at a batch with a nameless record and at a page with a nameless item.\<close>

theorem nameless_records_witness:
  "fst (merge_cards (\<lambda>n. ''2024-06-01T12:00:00'') [(''Card A'', [(''name'', JStr ''Card A'')])]
          [[(''rank'', JStr ''1'')], [(''name'', JStr ''Card B'')]])
     = fst (merge_cards (\<lambda>n. ''2024-06-01T12:00:00'') [(''Card A'', [(''name'', JStr ''Card A'')])]
          [[(''name'', JStr ''Card B'')]]) \<and>
   extract_cards (Tag ''[document]'' [] [
        Tag ''li'' [(''class'', ''p-planSearchList_item'')]
          [Tag ''div'' [(''class'', ''card-spec-blk'')]
             [Tag ''a'' [(''class'', ''p-planSearchList_name_link''), (''href'', ''/card/1'')]
                [NavigableString ''Card A'']]],
        Tag ''li'' [(''class'', ''p-planSearchList_item'')] []])
     = Inr [[(''name'', JStr ''Card A''), (''detail_url'', JStr ''https://kakaku.com/card/1''),
             (''features'', JList [])],
            [(''features'', JList [])]] \<and>
   length (find_all ''li'' ''p-planSearchList_item'' (Tag ''[document]'' [] [
        Tag ''li'' [(''class'', ''p-planSearchList_item'')]
          [Tag ''div'' [(''class'', ''card-spec-blk'')]
             [Tag ''a'' [(''class'', ''p-planSearchList_name_link''), (''href'', ''/card/1'')]
                [NavigableString ''Card A'']]],
        Tag ''li'' [(''class'', ''p-planSearchList_item'')] []])) = 2"
proof -
  let ?clk = "\<lambda>n::nat. ''2024-06-01T12:00:00''"
  let ?ex = "[(''Card A'', [(''name'', JStr ''Card A'')])]"
  let ?new = "[[(''rank'', JStr ''1'')], [(''name'', JStr ''Card B'')]]"
  let ?soup = "Tag ''[document]'' [] [
        Tag ''li'' [(''class'', ''p-planSearchList_item'')]
          [Tag ''div'' [(''class'', ''card-spec-blk'')]
             [Tag ''a'' [(''class'', ''p-planSearchList_name_link''), (''href'', ''/card/1'')]
                [NavigableString ''Card A'']]],
        Tag ''li'' [(''class'', ''p-planSearchList_item'')] []]"
  let ?cards = "[[(''name'', JStr ''Card A''), (''detail_url'', JStr ''https://kakaku.com/card/1''),
             (''features'', JList [])],
            [(''features'', JList [])]]"
  have e: "extract_cards ?soup = Inr ?cards" by code_simp
  have f: "filter (\<lambda>c. map_of c ''name'' \<noteq> None) ?new = [[(''name'', JStr ''Card B'')]]" by simp
  note t = nameless_records[of ?clk ?ex ?new ?soup ?cards]
  from t have a: "merge_cards ?clk ?ex ?new =
      merge_cards ?clk ?ex (filter (\<lambda>c. map_of c ''name'' \<noteq> None) ?new)" by (rule conjunct1)
  from t have "extract_cards ?soup = Inr ?cards \<longrightarrow>
      length ?cards = length (find_all ''li'' ''p-planSearchList_item'' ?soup)" by (rule conjunct2)
  with e have b: "length (find_all ''li'' ''p-planSearchList_item'' ?soup) = 2" by simp
  from a have "fst (merge_cards ?clk ?ex ?new) = fst (merge_cards ?clk ?ex [[(''name'', JStr ''Card B'')]])"
    unfolding f by simp
  with e b show ?thesis by blast
qed

section \<open>A page that fails\<close>

text \<open>
  Claim C8. When the fetch or the extraction of a page raises, \<^verbatim>\<open>get_card_info\<close> returns
  the empty list for it, and the result of the group is made of the records of the
  pages before it followed by the records of the pages after it.
\<close>

theorem page_failure_contained:
  assumes "fetch_and_extract session (base_url @ str_int page) = Inl e"
  shows "get_card_info session (base_url @ str_int page) = [] \<and>
         process_page_group session (before @ page # after) =
           process_page_group session before @ process_page_group session after"
  using assms by (simp add: get_card_info_def process_page_group_def)

text \<open>
  The theorem at a group of three pages, the second of which has an image without
  \<^verbatim>\<open>src\<close>, a \<^verbatim>\<open>KeyError\<close> on line 77.
\<close>

theorem page_failure_contained_witness:
  "fetch_and_extract
     (\<lambda>url. if url = ''https://kakaku.com/card/list/?cc_page=2''
            then Decoded (Tag ''[document]'' [] [
                   Tag ''li'' [(''class'', ''p-planSearchList_item'')]
                     [Tag ''div'' [(''class'', ''main-card'')] [Tag ''img'' [] []]]])
            else Decoded (Tag ''[document]'' [] [
                   Tag ''li'' [(''class'', ''p-planSearchList_item'')]
                     [Tag ''span'' [(''class'', ''rank-box'')]
                        [Tag ''span'' [] [NavigableString url]]]]))
     (base_url @ str_int 2) = Inl KeyError \<and>
   process_page_group
     (\<lambda>url. if url = ''https://kakaku.com/card/list/?cc_page=2''
            then Decoded (Tag ''[document]'' [] [
                   Tag ''li'' [(''class'', ''p-planSearchList_item'')]
                     [Tag ''div'' [(''class'', ''main-card'')] [Tag ''img'' [] []]]])
            else Decoded (Tag ''[document]'' [] [
                   Tag ''li'' [(''class'', ''p-planSearchList_item'')]
                     [Tag ''span'' [(''class'', ''rank-box'')]
                        [Tag ''span'' [] [NavigableString url]]]]))
     [1, 2, 3]
   = [[(''rank'', JStr ''https://kakaku.com/card/list/?cc_page=1''), (''features'', JList [])],
      [(''rank'', JStr ''https://kakaku.com/card/list/?cc_page=3''), (''features'', JList [])]]"
proof -
  let ?web = "\<lambda>url. if url = ''https://kakaku.com/card/list/?cc_page=2''
            then Decoded (Tag ''[document]'' [] [
                   Tag ''li'' [(''class'', ''p-planSearchList_item'')]
                     [Tag ''div'' [(''class'', ''main-card'')] [Tag ''img'' [] []]]])
            else Decoded (Tag ''[document]'' [] [
                   Tag ''li'' [(''class'', ''p-planSearchList_item'')]
                     [Tag ''span'' [(''class'', ''rank-box'')]
                        [Tag ''span'' [] [NavigableString url]]]])"
  have h: "fetch_and_extract ?web (base_url @ str_int 2) = Inl KeyError" by code_simp
  have s1: "process_page_group ?web [1] =
      [[(''rank'', JStr ''https://kakaku.com/card/list/?cc_page=1''), (''features'', JList [])]]"
    by code_simp
  have s3: "process_page_group ?web [3] =
      [[(''rank'', JStr ''https://kakaku.com/card/list/?cc_page=3''), (''features'', JList [])]]"
    by code_simp
  from page_failure_contained[OF h, of "[1]" "[3]"]
  have "process_page_group ?web ([1] @ 2 # [3]) = process_page_group ?web [1] @ process_page_group ?web [3]"
    by (rule conjunct2)
  then have "process_page_group ?web [1, 2, 3] =
     [[(''rank'', JStr ''https://kakaku.com/card/list/?cc_page=1''), (''features'', JList [])],
      [(''rank'', JStr ''https://kakaku.com/card/list/?cc_page=3''), (''features'', JList [])]]"
    unfolding s1 s3 by simp
  with h show ?thesis by blast
qed

section \<open>The default mode\<close>

lemma scrape_loop_eq:
  "scrape_loop st groups (served, acc) =
     (served @ map group_urls groups,
      acc @ concat (map (\<lambda>i. process_page_group (st (served @ map group_urls (take i groups)))
                                (groups ! i)) [0..<length groups]))"
proof (induction groups arbitrary: served acc)
  case Nil
  show ?case by simp
next
  case (Cons pages groups)
  have "[0..<length (pages # groups)] = 0 # map Suc [0..<length groups]"
    by (simp add: upt_conv_Cons map_Suc_upt del: upt_Suc)
  then show ?case
    by (simp add: Cons.IH comp_def del: upt_Suc)
qed

lemma scrape_loop_fields:
  assumes "crd \<in> set (snd (scrape_loop st groups (served, acc)))"
    and "\<forall>c\<in>set acc. map_of c ''created_at'' = None \<and>
           (map_of c ''name'' = None \<or> (\<exists>s. map_of c ''name'' = Some (JStr s)))"
  shows "map_of crd ''created_at'' = None \<and>
         (map_of crd ''name'' = None \<or> (\<exists>s. map_of crd ''name'' = Some (JStr s)))"
  using assms
proof (induction groups arbitrary: served acc)
  case Nil
  then show ?case by simp
next
  case (Cons pages groups)
  show ?case
  proof (rule Cons.IH)
    show "crd \<in> set (snd (scrape_loop st groups
            (served @ [group_urls pages], acc @ process_page_group (st served) pages)))"
      using Cons.prems(1) by simp
    show "\<forall>c\<in>set (acc @ process_page_group (st served) pages).
            map_of c ''created_at'' = None \<and>
            (map_of c ''name'' = None \<or> (\<exists>s. map_of c ''name'' = Some (JStr s)))"
      using Cons.prems(2) process_page_group_fields by auto
  qed
qed

lemma scrape_all_fields:
  assumes "crd \<in> set (snd (scrape_all st))"
  shows "map_of crd ''created_at'' = None \<and>
         (map_of crd ''name'' = None \<or> (\<exists>s. map_of crd ''name'' = Some (JStr s)))"
  using assms scrape_loop_fields[of crd st page_groups "[]" "[]"] by (simp add: scrape_all_def)

lemma page_groups_eval:
  "page_groups =
     [[1, 2, 3, 4, 5], [6, 7, 8, 9, 10], [11, 12, 13, 14, 15],
      [16, 17, 18, 19, 20], [21, 22, 23, 24, 25], [26, 27, 28, 29, 30],
      [31, 32, 33, 34, 35], [36, 37, 38, 39, 40], [41, 42, 43, 44, 45],
      [46, 47, 48, 49, 50], [51, 52, 53, 54, 55], [56, 57, 58, 59, 60],
      [61, 62, 63, 64, 65], [66, 67, 68, 69, 70], [71, 72, 73, 74, 75],
      [76, 77, 78, 79, 80], [81, 82, 83, 84, 85], [86, 87, 88, 89, 90],
      [91, 92, 93, 94, 95], [96, 97, 98, 99, 100], [101, 102, 103, 104, 105],
      [106, 107, 108, 109, 110], [111, 112, 113, 114]]"
  by code_simp

lemma concat_page_groups: "concat page_groups = [1..114]"
  unfolding page_groups_eval by code_simp

lemma page_group_of:
  assumes "i < length page_groups" and "page \<in> set (page_groups ! i)"
  shows "nat ((page - 1) div 5) = i"
proof -
  from assms(1) have "page_groups ! i = group_pages i"
    by (simp add: page_groups_def)
  with assms(2) have "5 * int i + 1 \<le> page" "page \<le> 5 * int i + 5"
    by (auto simp: group_pages_def group_size_def total_pages_def Let_def)
  then have "(page - 1) div 5 = int i" by linarith
  then show ?thesis by simp
qed

lemma concat_map_concat:
  "concat (map f (concat xss)) = concat (map (\<lambda>xs. concat (map f xs)) xss)"
  by (induction xss) auto

lemma pages_regroup:
  "concat (map (\<lambda>i. concat (map (F i) (page_groups ! i))) [0..<length page_groups]) =
   concat (map (\<lambda>page. F (nat ((page - 1) div 5)) page) [1..114])"
proof -
  let ?G = "\<lambda>page. F (nat ((page - 1) div 5)) page"
  have "map (\<lambda>i. concat (map (F i) (page_groups ! i))) [0..<length page_groups] =
        map (\<lambda>i. concat (map ?G (page_groups ! i))) [0..<length page_groups]"
    by (rule map_cong[OF refl], rule arg_cong[where f = concat], rule map_cong[OF refl])
      (simp add: page_group_of)
  also have "\<dots> = map (\<lambda>pages. concat (map ?G pages)) (map (nth page_groups) [0..<length page_groups])"
    by simp
  also have "\<dots> = map (\<lambda>pages. concat (map ?G pages)) page_groups"
    by (simp only: map_nth)
  finally have "concat (map (\<lambda>i. concat (map (F i) (page_groups ! i))) [0..<length page_groups]) =
      concat (map ?G (concat page_groups))"
    by (simp only: concat_map_concat)
  then show ?thesis by (simp only: concat_page_groups)
qed

lemma group_urls_eval:
  "map group_urls page_groups =
     [[''https://kakaku.com/card/list/?cc_page=1'',
       ''https://kakaku.com/card/list/?cc_page=2'',
       ''https://kakaku.com/card/list/?cc_page=3'',
       ''https://kakaku.com/card/list/?cc_page=4'',
       ''https://kakaku.com/card/list/?cc_page=5''],
      [''https://kakaku.com/card/list/?cc_page=6'',
       ''https://kakaku.com/card/list/?cc_page=7'',
       ''https://kakaku.com/card/list/?cc_page=8'',
       ''https://kakaku.com/card/list/?cc_page=9'',
       ''https://kakaku.com/card/list/?cc_page=10''],
      [''https://kakaku.com/card/list/?cc_page=11'',
       ''https://kakaku.com/card/list/?cc_page=12'',
       ''https://kakaku.com/card/list/?cc_page=13'',
       ''https://kakaku.com/card/list/?cc_page=14'',
       ''https://kakaku.com/card/list/?cc_page=15''],
      [''https://kakaku.com/card/list/?cc_page=16'',
       ''https://kakaku.com/card/list/?cc_page=17'',
       ''https://kakaku.com/card/list/?cc_page=18'',
       ''https://kakaku.com/card/list/?cc_page=19'',
       ''https://kakaku.com/card/list/?cc_page=20''],
      [''https://kakaku.com/card/list/?cc_page=21'',
       ''https://kakaku.com/card/list/?cc_page=22'',
       ''https://kakaku.com/card/list/?cc_page=23'',
       ''https://kakaku.com/card/list/?cc_page=24'',
       ''https://kakaku.com/card/list/?cc_page=25''],
      [''https://kakaku.com/card/list/?cc_page=26'',
       ''https://kakaku.com/card/list/?cc_page=27'',
       ''https://kakaku.com/card/list/?cc_page=28'',
       ''https://kakaku.com/card/list/?cc_page=29'',
       ''https://kakaku.com/card/list/?cc_page=30''],
      [''https://kakaku.com/card/list/?cc_page=31'',
       ''https://kakaku.com/card/list/?cc_page=32'',
       ''https://kakaku.com/card/list/?cc_page=33'',
       ''https://kakaku.com/card/list/?cc_page=34'',
       ''https://kakaku.com/card/list/?cc_page=35''],
      [''https://kakaku.com/card/list/?cc_page=36'',
       ''https://kakaku.com/card/list/?cc_page=37'',
       ''https://kakaku.com/card/list/?cc_page=38'',
       ''https://kakaku.com/card/list/?cc_page=39'',
       ''https://kakaku.com/card/list/?cc_page=40''],
      [''https://kakaku.com/card/list/?cc_page=41'',
       ''https://kakaku.com/card/list/?cc_page=42'',
       ''https://kakaku.com/card/list/?cc_page=43'',
       ''https://kakaku.com/card/list/?cc_page=44'',
       ''https://kakaku.com/card/list/?cc_page=45''],
      [''https://kakaku.com/card/list/?cc_page=46'',
       ''https://kakaku.com/card/list/?cc_page=47'',
       ''https://kakaku.com/card/list/?cc_page=48'',
       ''https://kakaku.com/card/list/?cc_page=49'',
       ''https://kakaku.com/card/list/?cc_page=50''],
      [''https://kakaku.com/card/list/?cc_page=51'',
       ''https://kakaku.com/card/list/?cc_page=52'',
       ''https://kakaku.com/card/list/?cc_page=53'',
       ''https://kakaku.com/card/list/?cc_page=54'',
       ''https://kakaku.com/card/list/?cc_page=55''],
      [''https://kakaku.com/card/list/?cc_page=56'',
       ''https://kakaku.com/card/list/?cc_page=57'',
       ''https://kakaku.com/card/list/?cc_page=58'',
       ''https://kakaku.com/card/list/?cc_page=59'',
       ''https://kakaku.com/card/list/?cc_page=60''],
      [''https://kakaku.com/card/list/?cc_page=61'',
       ''https://kakaku.com/card/list/?cc_page=62'',
       ''https://kakaku.com/card/list/?cc_page=63'',
       ''https://kakaku.com/card/list/?cc_page=64'',
       ''https://kakaku.com/card/list/?cc_page=65''],
      [''https://kakaku.com/card/list/?cc_page=66'',
       ''https://kakaku.com/card/list/?cc_page=67'',
       ''https://kakaku.com/card/list/?cc_page=68'',
       ''https://kakaku.com/card/list/?cc_page=69'',
       ''https://kakaku.com/card/list/?cc_page=70''],
      [''https://kakaku.com/card/list/?cc_page=71'',
       ''https://kakaku.com/card/list/?cc_page=72'',
       ''https://kakaku.com/card/list/?cc_page=73'',
       ''https://kakaku.com/card/list/?cc_page=74'',
       ''https://kakaku.com/card/list/?cc_page=75''],
      [''https://kakaku.com/card/list/?cc_page=76'',
       ''https://kakaku.com/card/list/?cc_page=77'',
       ''https://kakaku.com/card/list/?cc_page=78'',
       ''https://kakaku.com/card/list/?cc_page=79'',
       ''https://kakaku.com/card/list/?cc_page=80''],
      [''https://kakaku.com/card/list/?cc_page=81'',
       ''https://kakaku.com/card/list/?cc_page=82'',
       ''https://kakaku.com/card/list/?cc_page=83'',
       ''https://kakaku.com/card/list/?cc_page=84'',
       ''https://kakaku.com/card/list/?cc_page=85''],
      [''https://kakaku.com/card/list/?cc_page=86'',
       ''https://kakaku.com/card/list/?cc_page=87'',
       ''https://kakaku.com/card/list/?cc_page=88'',
       ''https://kakaku.com/card/list/?cc_page=89'',
       ''https://kakaku.com/card/list/?cc_page=90''],
      [''https://kakaku.com/card/list/?cc_page=91'',
       ''https://kakaku.com/card/list/?cc_page=92'',
       ''https://kakaku.com/card/list/?cc_page=93'',
       ''https://kakaku.com/card/list/?cc_page=94'',
       ''https://kakaku.com/card/list/?cc_page=95''],
      [''https://kakaku.com/card/list/?cc_page=96'',
       ''https://kakaku.com/card/list/?cc_page=97'',
       ''https://kakaku.com/card/list/?cc_page=98'',
       ''https://kakaku.com/card/list/?cc_page=99'',
       ''https://kakaku.com/card/list/?cc_page=100''],
      [''https://kakaku.com/card/list/?cc_page=101'',
       ''https://kakaku.com/card/list/?cc_page=102'',
       ''https://kakaku.com/card/list/?cc_page=103'',
       ''https://kakaku.com/card/list/?cc_page=104'',
       ''https://kakaku.com/card/list/?cc_page=105''],
      [''https://kakaku.com/card/list/?cc_page=106'',
       ''https://kakaku.com/card/list/?cc_page=107'',
       ''https://kakaku.com/card/list/?cc_page=108'',
       ''https://kakaku.com/card/list/?cc_page=109'',
       ''https://kakaku.com/card/list/?cc_page=110''],
      [''https://kakaku.com/card/list/?cc_page=111'',
       ''https://kakaku.com/card/list/?cc_page=112'',
       ''https://kakaku.com/card/list/?cc_page=113'',
       ''https://kakaku.com/card/list/?cc_page=114'']]"
  by code_simp

text \<open>
  Claim C9. Without arguments the pages 1 to 114 are cut into 23 consecutive groups of
  at most five pages (group \<open>g\<close> holds the pages \<open>5g + 1\<close> to \<open>min (5g + 5) 114\<close>), every
  page is in exactly one group, and the URLs of the groups are the base URL followed
  by the page number in decimal. The groups are processed one after the other in their order: the requests
  made are the groups of URLs in that order, and the records of a page are extracted
  from the answer the site gives when exactly the groups before the page's own group
  have completed. The list of all records is the concatenation of these records in
  ascending page order; that list is what the program then saves.
\<close>

theorem default_mode_schedule:
  "concat page_groups = [1..114] \<and>
   length page_groups = 23 \<and>
   list_all (\<lambda>pages. pages \<noteq> [] \<and> length pages \<le> group_size) page_groups \<and>
   page_groups = map (\<lambda>g. [5 * int g + 1 .. min (5 * int g + 5) 114]) [0..<23] \<and>
   map group_urls page_groups =
     [[''https://kakaku.com/card/list/?cc_page=1'',
       ''https://kakaku.com/card/list/?cc_page=2'',
       ''https://kakaku.com/card/list/?cc_page=3'',
       ''https://kakaku.com/card/list/?cc_page=4'',
       ''https://kakaku.com/card/list/?cc_page=5''],
      [''https://kakaku.com/card/list/?cc_page=6'',
       ''https://kakaku.com/card/list/?cc_page=7'',
       ''https://kakaku.com/card/list/?cc_page=8'',
       ''https://kakaku.com/card/list/?cc_page=9'',
       ''https://kakaku.com/card/list/?cc_page=10''],
      [''https://kakaku.com/card/list/?cc_page=11'',
       ''https://kakaku.com/card/list/?cc_page=12'',
       ''https://kakaku.com/card/list/?cc_page=13'',
       ''https://kakaku.com/card/list/?cc_page=14'',
       ''https://kakaku.com/card/list/?cc_page=15''],
      [''https://kakaku.com/card/list/?cc_page=16'',
       ''https://kakaku.com/card/list/?cc_page=17'',
       ''https://kakaku.com/card/list/?cc_page=18'',
       ''https://kakaku.com/card/list/?cc_page=19'',
       ''https://kakaku.com/card/list/?cc_page=20''],
      [''https://kakaku.com/card/list/?cc_page=21'',
       ''https://kakaku.com/card/list/?cc_page=22'',
       ''https://kakaku.com/card/list/?cc_page=23'',
       ''https://kakaku.com/card/list/?cc_page=24'',
       ''https://kakaku.com/card/list/?cc_page=25''],
      [''https://kakaku.com/card/list/?cc_page=26'',
       ''https://kakaku.com/card/list/?cc_page=27'',
       ''https://kakaku.com/card/list/?cc_page=28'',
       ''https://kakaku.com/card/list/?cc_page=29'',
       ''https://kakaku.com/card/list/?cc_page=30''],
      [''https://kakaku.com/card/list/?cc_page=31'',
       ''https://kakaku.com/card/list/?cc_page=32'',
       ''https://kakaku.com/card/list/?cc_page=33'',
       ''https://kakaku.com/card/list/?cc_page=34'',
       ''https://kakaku.com/card/list/?cc_page=35''],
      [''https://kakaku.com/card/list/?cc_page=36'',
       ''https://kakaku.com/card/list/?cc_page=37'',
       ''https://kakaku.com/card/list/?cc_page=38'',
       ''https://kakaku.com/card/list/?cc_page=39'',
       ''https://kakaku.com/card/list/?cc_page=40''],
      [''https://kakaku.com/card/list/?cc_page=41'',
       ''https://kakaku.com/card/list/?cc_page=42'',
       ''https://kakaku.com/card/list/?cc_page=43'',
       ''https://kakaku.com/card/list/?cc_page=44'',
       ''https://kakaku.com/card/list/?cc_page=45''],
      [''https://kakaku.com/card/list/?cc_page=46'',
       ''https://kakaku.com/card/list/?cc_page=47'',
       ''https://kakaku.com/card/list/?cc_page=48'',
       ''https://kakaku.com/card/list/?cc_page=49'',
       ''https://kakaku.com/card/list/?cc_page=50''],
      [''https://kakaku.com/card/list/?cc_page=51'',
       ''https://kakaku.com/card/list/?cc_page=52'',
       ''https://kakaku.com/card/list/?cc_page=53'',
       ''https://kakaku.com/card/list/?cc_page=54'',
       ''https://kakaku.com/card/list/?cc_page=55''],
      [''https://kakaku.com/card/list/?cc_page=56'',
       ''https://kakaku.com/card/list/?cc_page=57'',
       ''https://kakaku.com/card/list/?cc_page=58'',
       ''https://kakaku.com/card/list/?cc_page=59'',
       ''https://kakaku.com/card/list/?cc_page=60''],
      [''https://kakaku.com/card/list/?cc_page=61'',
       ''https://kakaku.com/card/list/?cc_page=62'',
       ''https://kakaku.com/card/list/?cc_page=63'',
       ''https://kakaku.com/card/list/?cc_page=64'',
       ''https://kakaku.com/card/list/?cc_page=65''],
      [''https://kakaku.com/card/list/?cc_page=66'',
       ''https://kakaku.com/card/list/?cc_page=67'',
       ''https://kakaku.com/card/list/?cc_page=68'',
       ''https://kakaku.com/card/list/?cc_page=69'',
       ''https://kakaku.com/card/list/?cc_page=70''],
      [''https://kakaku.com/card/list/?cc_page=71'',
       ''https://kakaku.com/card/list/?cc_page=72'',
       ''https://kakaku.com/card/list/?cc_page=73'',
       ''https://kakaku.com/card/list/?cc_page=74'',
       ''https://kakaku.com/card/list/?cc_page=75''],
      [''https://kakaku.com/card/list/?cc_page=76'',
       ''https://kakaku.com/card/list/?cc_page=77'',
       ''https://kakaku.com/card/list/?cc_page=78'',
       ''https://kakaku.com/card/list/?cc_page=79'',
       ''https://kakaku.com/card/list/?cc_page=80''],
      [''https://kakaku.com/card/list/?cc_page=81'',
       ''https://kakaku.com/card/list/?cc_page=82'',
       ''https://kakaku.com/card/list/?cc_page=83'',
       ''https://kakaku.com/card/list/?cc_page=84'',
       ''https://kakaku.com/card/list/?cc_page=85''],
      [''https://kakaku.com/card/list/?cc_page=86'',
       ''https://kakaku.com/card/list/?cc_page=87'',
       ''https://kakaku.com/card/list/?cc_page=88'',
       ''https://kakaku.com/card/list/?cc_page=89'',
       ''https://kakaku.com/card/list/?cc_page=90''],
      [''https://kakaku.com/card/list/?cc_page=91'',
       ''https://kakaku.com/card/list/?cc_page=92'',
       ''https://kakaku.com/card/list/?cc_page=93'',
       ''https://kakaku.com/card/list/?cc_page=94'',
       ''https://kakaku.com/card/list/?cc_page=95''],
      [''https://kakaku.com/card/list/?cc_page=96'',
       ''https://kakaku.com/card/list/?cc_page=97'',
       ''https://kakaku.com/card/list/?cc_page=98'',
       ''https://kakaku.com/card/list/?cc_page=99'',
       ''https://kakaku.com/card/list/?cc_page=100''],
      [''https://kakaku.com/card/list/?cc_page=101'',
       ''https://kakaku.com/card/list/?cc_page=102'',
       ''https://kakaku.com/card/list/?cc_page=103'',
       ''https://kakaku.com/card/list/?cc_page=104'',
       ''https://kakaku.com/card/list/?cc_page=105''],
      [''https://kakaku.com/card/list/?cc_page=106'',
       ''https://kakaku.com/card/list/?cc_page=107'',
       ''https://kakaku.com/card/list/?cc_page=108'',
       ''https://kakaku.com/card/list/?cc_page=109'',
       ''https://kakaku.com/card/list/?cc_page=110''],
      [''https://kakaku.com/card/list/?cc_page=111'',
       ''https://kakaku.com/card/list/?cc_page=112'',
       ''https://kakaku.com/card/list/?cc_page=113'',
       ''https://kakaku.com/card/list/?cc_page=114'']] \<and>
   fst (scrape_all st) = map group_urls page_groups \<and>
   snd (scrape_all st) =
     concat (map (\<lambda>page. get_card_info
                             (st (map group_urls (take (nat ((page - 1) div 5)) page_groups)))
                             (base_url @ str_int page))
               [1..114]) \<and>
   main NoArgs st clk file = save_cards clk file (snd (scrape_all st))"
proof -
  have 1: "concat page_groups = [1..114]" by (rule concat_page_groups)
  have 2: "length page_groups = 23" unfolding page_groups_eval by simp
  have 3: "list_all (\<lambda>pages. pages \<noteq> [] \<and> length pages \<le> group_size) page_groups"
    unfolding page_groups_eval group_size_def by simp
  have 4: "page_groups = map (\<lambda>g. [5 * int g + 1 .. min (5 * int g + 5) 114]) [0..<23]"
    by code_simp
  note 5 = group_urls_eval
  have 6: "fst (scrape_all st) = map group_urls page_groups"
    by (simp add: scrape_all_def scrape_loop_eq)
  have "snd (scrape_all st) =
      concat (map (\<lambda>i. concat (map (\<lambda>page. get_card_info
                             (st (map group_urls (take i page_groups)))
                             (base_url @ str_int page)) (page_groups ! i)))
                [0..<length page_groups])"
    by (simp add: scrape_all_def scrape_loop_eq process_page_group_def)
  then have 7: "snd (scrape_all st) =
     concat (map (\<lambda>page. get_card_info
                             (st (map group_urls (take (nat ((page - 1) div 5)) page_groups)))
                             (base_url @ str_int page))
               [1..114])"
    by (simp only: pages_regroup)
  have 8: "main NoArgs st clk file = save_cards clk file (snd (scrape_all st))"
    by (simp add: main_def)
  from 1 2 3 4 5 6 7 8 show ?thesis by (intro conjI)
qed

text \<open>
  The theorem at a site that writes into every page the URL requested and the number
  of groups it has served before: the sixth record is that of page 6 after one group,
  the last that of page 114 after 22 groups, and the last group has the pages 111 to
  114.
\<close>

theorem default_mode_schedule_witness:
  "snd (scrape_all
     (\<lambda>served url. Decoded (Tag ''[document]'' [] [
        Tag ''li'' [(''class'', ''p-planSearchList_item'')]
          [Tag ''div'' [(''class'', ''main-card'')]
             [Tag ''img'' [(''src'', str_nat (length served))] []],
           Tag ''span'' [(''class'', ''rank-box'')] [Tag ''span'' [] [NavigableString url]]]]))) ! 5
     = [(''image_url'', JStr ''1''),
        (''rank'', JStr ''https://kakaku.com/card/list/?cc_page=6''),
        (''features'', JList [])] \<and>
   last (snd (scrape_all
     (\<lambda>served url. Decoded (Tag ''[document]'' [] [
        Tag ''li'' [(''class'', ''p-planSearchList_item'')]
          [Tag ''div'' [(''class'', ''main-card'')]
             [Tag ''img'' [(''src'', str_nat (length served))] []],
           Tag ''span'' [(''class'', ''rank-box'')] [Tag ''span'' [] [NavigableString url]]]]))))
     = [(''image_url'', JStr ''22''),
        (''rank'', JStr ''https://kakaku.com/card/list/?cc_page=114''),
        (''features'', JList [])] \<and>
   fst (scrape_all
     (\<lambda>served url. Decoded (Tag ''[document]'' [] [
        Tag ''li'' [(''class'', ''p-planSearchList_item'')]
          [Tag ''div'' [(''class'', ''main-card'')]
             [Tag ''img'' [(''src'', str_nat (length served))] []],
           Tag ''span'' [(''class'', ''rank-box'')] [Tag ''span'' [] [NavigableString url]]]]))) ! 22
     = [''https://kakaku.com/card/list/?cc_page=111'', ''https://kakaku.com/card/list/?cc_page=112'',
        ''https://kakaku.com/card/list/?cc_page=113'', ''https://kakaku.com/card/list/?cc_page=114'']"
proof -
  let ?st = "\<lambda>(served :: string list list) url. Decoded (Tag ''[document]'' [] [
        Tag ''li'' [(''class'', ''p-planSearchList_item'')]
          [Tag ''div'' [(''class'', ''main-card'')]
             [Tag ''img'' [(''src'', str_nat (length served))] []],
           Tag ''span'' [(''class'', ''rank-box'')] [Tag ''span'' [] [NavigableString url]]]])"
  let ?G = "\<lambda>page. get_card_info
                             (?st (map group_urls (take (nat ((page - 1) div 5)) page_groups)))
                             (base_url @ str_int page)"
  note t = default_mode_schedule[of ?st]
  note f = t[THEN conjunct2, THEN conjunct2, THEN conjunct2, THEN conjunct2, THEN conjunct2,
    THEN conjunct1]
  note s = t[THEN conjunct2, THEN conjunct2, THEN conjunct2, THEN conjunct2, THEN conjunct2,
    THEN conjunct2, THEN conjunct1]
  have sp: "[1..114] = [1..5] @ 6 # [7..113] @ [114::int]" by code_simp
  have e0: "length (concat (map ?G [1..5])) = 5" by code_simp
  have e6: "?G 6 = [[(''image_url'', JStr ''1''),
        (''rank'', JStr ''https://kakaku.com/card/list/?cc_page=6''),
        (''features'', JList [])]]" by code_simp
  have e114: "?G 114 = [[(''image_url'', JStr ''22''),
        (''rank'', JStr ''https://kakaku.com/card/list/?cc_page=114''),
        (''features'', JList [])]]" by code_simp
  have e3: "map group_urls page_groups ! 22
     = [''https://kakaku.com/card/list/?cc_page=111'', ''https://kakaku.com/card/list/?cc_page=112'',
        ''https://kakaku.com/card/list/?cc_page=113'', ''https://kakaku.com/card/list/?cc_page=114'']"
    by code_simp
  define A where "A = concat (map ?G [1..5])"
  define B where "B = concat (map ?G [7..113])"
  define r6 where "r6 = [(''image_url'', JStr ''1''),
        (''rank'', JStr ''https://kakaku.com/card/list/?cc_page=6''),
        (''features'', JList [])]"
  define r114 where "r114 = [(''image_url'', JStr ''22''),
        (''rank'', JStr ''https://kakaku.com/card/list/?cc_page=114''),
        (''features'', JList [])]"
  have "snd (scrape_all ?st) =
      concat (map ?G [1..5]) @ ?G 6 @ concat (map ?G [7..113]) @ ?G 114"
    unfolding s sp
    by (simp only: map_append concat_append list.map concat.simps append_Nil2 append_Cons
        append_Nil)
  then have d: "snd (scrape_all ?st) = A @ [r6] @ B @ [r114]"
    unfolding e6 e114 A_def B_def r6_def r114_def .
  from e0 have a: "length A = 5" by (simp only: A_def)
  from a have n5: "(A @ [r6] @ B @ [r114]) ! 5 = r6" by (simp add: nth_append)
  have l: "last (A @ [r6] @ B @ [r114]) = r114" by simp
  from n5 l e3 show ?thesis unfolding f d r6_def r114_def by (intro conjI)
qed

section \<open>The time stamps of the persisted records\<close>

lemma merge_one_total:
  assumes "map_of c ''name'' = None \<or> (\<exists>s. map_of c ''name'' = Some (JStr s))"
  shows "\<exists>m'. merge_one t m c = Inr m'"
  using assms by (auto simp: merge_one_def split: option.splits)

lemma merge_loop_total:
  assumes "\<forall>c\<in>set new. map_of c ''name'' = None \<or> (\<exists>s. map_of c ''name'' = Some (JStr s))"
  shows "\<exists>m'. merge_loop t m new = Inr m'"
  using assms
proof (induction new arbitrary: m)
  case Nil
  show ?case by simp
next
  case (Cons c new)
  from Cons.prems have "map_of c ''name'' = None \<or> (\<exists>s. map_of c ''name'' = Some (JStr s))"
    by simp
  then obtain m1 where "merge_one t m c = Inr m1" using merge_one_total by blast
  moreover from Cons.prems obtain m' where "merge_loop t m1 new = Inr m'"
    using Cons.IH by auto
  ultimately show ?case by simp
qed

lemma valid_stamps_iff:
  "valid_stamps r \<longleftrightarrow>
     (\<exists>created updated. map_of r ''created_at'' = Some (JStr created) \<and>
        map_of r ''updated_at'' = Some (JStr updated) \<and> created \<le> updated)"
  by (cases "map_of r ''created_at''"; cases "map_of r ''updated_at''")
    (auto simp: valid_stamps_def split: jval.split)

lemma created_by_iff:
  "created_by t r \<longleftrightarrow> (\<exists>created. map_of r ''created_at'' = Some (JStr created) \<and> created \<le> t)"
  by (cases "map_of r ''created_at''") (auto simp: created_by_def split: jval.split)

lemma stamp_valid: "valid_stamps (stamp t c) \<and> created_by t (stamp t c)"
  by (simp add: valid_stamps_iff created_by_iff stamp_def map_of_setitem)

lemma merge_one_stamps:
  assumes "merge_one t m c = Inr m'" and "map_of c ''created_at'' = None"
    and "\<forall>r\<in>snd ` set m. valid_stamps r \<and> created_by t r"
  shows "\<forall>r\<in>snd ` set m'. valid_stamps r \<and> created_by t r"
proof (cases "map_of c ''name''")
  case None
  with assms show ?thesis by (simp add: merge_one_def)
next
  case (Some v)
  with assms(1) obtain k where k: "map_of c ''name'' = Some (JStr k)"
    by (cases v) (auto simp: merge_one_def)
  define r0 where "r0 = setitem ''updated_at'' (JStr t)
                  (case map_of m k of Some old \<Rightarrow> dict_update old c
                                    | None \<Rightarrow> setitem ''created_at'' (JStr t) c)"
  from assms(1) k have m': "m' = setitem k r0 m" by (simp add: merge_one_same r0_def)
  have new: "valid_stamps r0 \<and> created_by t r0"
  proof (cases "map_of m k")
    case None
    then show ?thesis
      by (simp add: r0_def valid_stamps_iff created_by_iff map_of_setitem)
  next
    case (Some old)
    then have "(k, old) \<in> set m" by (rule map_of_SomeD)
    then have "old \<in> snd ` set m" by force
    with assms(3) have "created_by t old" by blast
    then obtain created where "map_of old ''created_at'' = Some (JStr created)" "created \<le> t"
      by (auto simp: created_by_iff)
    with Some assms(2) show ?thesis
      by (simp add: r0_def valid_stamps_iff created_by_iff map_of_setitem map_of_dict_update
          map_add_def)
  qed
  have sub: "set m' \<subseteq> insert (k, r0) (set m)"
    unfolding m' by (rule set_setitem)
  show ?thesis
  proof
    fix r
    assume "r \<in> snd ` set m'"
    then obtain k' where "(k', r) \<in> set m'" by auto
    with sub have "(k', r) = (k, r0) \<or> (k', r) \<in> set m" by blast
    then show "valid_stamps r \<and> created_by t r"
    proof
      assume "(k', r) = (k, r0)"
      with new show ?thesis by simp
    next
      assume "(k', r) \<in> set m"
      then have "r \<in> snd ` set m" by force
      with assms(3) show ?thesis by blast
    qed
  qed
qed

lemma merge_loop_stamps:
  assumes "merge_loop t m new = Inr m'"
    and "\<forall>c\<in>set new. map_of c ''created_at'' = None"
    and "\<forall>r\<in>snd ` set m. valid_stamps r \<and> created_by t r"
  shows "\<forall>r\<in>snd ` set m'. valid_stamps r \<and> created_by t r"
  using assms
proof (induction new arbitrary: m)
  case Nil
  then show ?case by simp
next
  case (Cons c new)
  from Cons.prems(1) obtain m1 where m1: "merge_one t m c = Inr m1" "merge_loop t m1 new = Inr m'"
    by (auto split: sum.splits)
  from Cons.prems(2) have c: "map_of c ''created_at'' = None"
    and rest: "\<forall>c\<in>set new. map_of c ''created_at'' = None" by simp_all
  from merge_one_stamps[OF m1(1) c Cons.prems(3)]
  have "\<forall>r\<in>snd ` set m1. valid_stamps r \<and> created_by t r" .
  from Cons.IH[OF m1(2) rest this] show ?case .
qed

lemma save_cards_stamps:
  assumes "save_cards clk file all_cards = (Inr out, clk')"
    and "\<forall>c\<in>set all_cards. map_of c ''created_at'' = None"
    and "\<forall>r\<in>snd ` set (load_existing_cards file). valid_stamps r \<and> created_by (clk 0) r"
  shows "\<forall>r\<in>set out. valid_stamps r"
proof (cases "load_existing_cards file = []")
  case True
  with assms(1) have "out = map (stamp (clk 0)) all_cards"
    by (auto simp: save_cards_def now_isoformat_def)
  then show ?thesis using stamp_valid by auto
next
  case False
  with assms(1) have "merge_cards clk (load_existing_cards file) all_cards = (Inr out, clk')"
    by (simp add: save_cards_def)
  then obtain merged where m: "merge_loop (clk 0) (load_existing_cards file) all_cards = Inr merged"
    "out = map snd merged"
    by (auto simp: merge_cards_Inr)
  from merge_loop_stamps[OF m(1) assms(2) assms(3)] m(2) show ?thesis by simp
qed

lemma save_cards_total:
  assumes "\<forall>c\<in>set all_cards. map_of c ''name'' = None \<or> (\<exists>s. map_of c ''name'' = Some (JStr s))"
  shows "\<exists>out. save_cards clk file all_cards = (Inr out, \<lambda>n. clk (Suc n))"
proof (cases "load_existing_cards file = []")
  case True
  then show ?thesis by (simp add: save_cards_def now_isoformat_def)
next
  case False
  from merge_loop_total[OF assms] obtain m' where
    "merge_loop (clk 0) (load_existing_cards file) all_cards = Inr m'" by blast
  with False show ?thesis by (simp add: save_cards_def merge_cards_Inr)
qed

lemma save_cards_scraped:
  assumes "\<forall>crd\<in>set all_cards. map_of crd ''created_at'' = None \<and>
         (map_of crd ''name'' = None \<or> (\<exists>s. map_of crd ''name'' = Some (JStr s)))"
    and "\<forall>r\<in>snd ` set (load_existing_cards file). valid_stamps r \<and> created_by (clk 0) r"
  shows "(\<exists>out. save_cards clk file all_cards = (Inr out, \<lambda>n. clk (Suc n))) \<and>
         (\<forall>out clk'. save_cards clk file all_cards = (Inr out, clk') \<longrightarrow>
            (\<forall>r\<in>set out. valid_stamps r))"
proof
  from assms(1)
  have n: "\<forall>c\<in>set all_cards. map_of c ''name'' = None \<or> (\<exists>s. map_of c ''name'' = Some (JStr s))"
    by blast
  then show "\<exists>out. save_cards clk file all_cards = (Inr out, \<lambda>n. clk (Suc n))"
    by (rule save_cards_total)
  from assms(1) have f: "\<forall>c\<in>set all_cards. map_of c ''created_at'' = None" by blast
  show "\<forall>out clk'. save_cards clk file all_cards = (Inr out, clk') \<longrightarrow>
            (\<forall>r\<in>set out. valid_stamps r)"
  proof (intro allI impI)
    fix out clk'
    assume "save_cards clk file all_cards = (Inr out, clk')"
    then show "\<forall>r\<in>set out. valid_stamps r" using f assms(2) by (rule save_cards_stamps)
  qed
qed

text \<open>
  Claim C5, as amended. Suppose that every record loaded from the output file has both
  time stamps with \<^verbatim>\<open>created_at\<close> not later than \<^verbatim>\<open>updated_at\<close>, and a \<^verbatim>\<open>created_at\<close> that is
  not later than the time stamp of the run. Then every record that the program writes,
  on the merge path and on the fresh-store path, in both modes, has both time stamps
  with \<^verbatim>\<open>created_at\<close> not later than \<^verbatim>\<open>updated_at\<close>; and unless the page list is
  rejected, the program does write.
\<close>

theorem persisted_stamps:
  assumes "\<forall>r\<in>snd ` set (load_existing_cards file). valid_stamps r \<and> created_by (clk 0) r"
  shows "(argv \<noteq> BadPageList \<longrightarrow>
            (\<exists>out. main argv st clk file = (Inr out, \<lambda>n. clk (Suc n)))) \<and>
         (\<forall>out clk'. main argv st clk file = (Inr out, clk') \<longrightarrow>
            (\<forall>r\<in>set out. valid_stamps r))"
proof (cases argv)
  case NoArgs
  have m: "main argv st clk file = save_cards clk file (snd (scrape_all st))"
    unfolding NoArgs by (simp add: main_def)
  have "\<forall>crd\<in>set (snd (scrape_all st)). map_of crd ''created_at'' = None \<and>
         (map_of crd ''name'' = None \<or> (\<exists>s. map_of crd ''name'' = Some (JStr s)))"
    using scrape_all_fields by blast
  note s = save_cards_scraped[of _ "file" clk, OF this assms]
  show ?thesis unfolding m
    by (intro conjI impI) (rule conjunct1[OF s], rule conjunct2[OF s])
next
  case (PageList pages)
  have m: "main argv st clk file = save_cards clk file (process_page_group (st []) pages)"
    unfolding PageList by (simp add: main_def)
  have "\<forall>crd\<in>set (process_page_group (st []) pages). map_of crd ''created_at'' = None \<and>
         (map_of crd ''name'' = None \<or> (\<exists>s. map_of crd ''name'' = Some (JStr s)))"
    using process_page_group_fields by blast
  note s = save_cards_scraped[of _ "file" clk, OF this assms]
  show ?thesis unfolding m
    by (intro conjI impI) (rule conjunct1[OF s], rule conjunct2[OF s])
next
  case BadPageList
  then show ?thesis by (simp add: main_def)
qed

text \<open>
  The claim as stated, for every run, fails in two ways. The clock is the wall clock in
  local time: when it reads earlier than the \<^verbatim>\<open>created_at\<close> of a stored record (here
  01:10 after 01:45, as at the end of daylight saving time), the updated record has
  \<^verbatim>\<open>created_at\<close> later than \<^verbatim>\<open>updated_at\<close>. And a record of the file that has no time
  stamps and is not scraped again is written back as it is.
\<close>

theorem persisted_stamps_counterexample:
  "valid_stamps [(''name'', JStr ''Card A''), (''created_at'', JStr ''2024-11-03T01:45:00''),
                 (''updated_at'', JStr ''2024-11-03T01:45:00'')] \<and>
   fst (main (PageList [1])
          (\<lambda>served url. Decoded (Tag ''[document]'' [] [
             Tag ''li'' [(''class'', ''p-planSearchList_item'')]
               [Tag ''div'' [(''class'', ''card-spec-blk'')]
                  [Tag ''a'' [(''class'', ''p-planSearchList_name_link''), (''href'', ''/card/1'')]
                     [NavigableString ''Card A'']]]]))
          (\<lambda>n. ''2024-11-03T01:10:00'')
          (Stored [[(''name'', JStr ''Card A''), (''created_at'', JStr ''2024-11-03T01:45:00''),
                    (''updated_at'', JStr ''2024-11-03T01:45:00'')]]))
     = Inr [[(''name'', JStr ''Card A''), (''created_at'', JStr ''2024-11-03T01:45:00''),
             (''updated_at'', JStr ''2024-11-03T01:10:00''),
             (''detail_url'', JStr ''https://kakaku.com/card/1''), (''features'', JList [])]] \<and>
   \<not> valid_stamps [(''name'', JStr ''Card A''), (''created_at'', JStr ''2024-11-03T01:45:00''),
             (''updated_at'', JStr ''2024-11-03T01:10:00''),
             (''detail_url'', JStr ''https://kakaku.com/card/1''), (''features'', JList [])] \<and>
   fst (main (PageList [1])
          (\<lambda>served url. Decoded (Tag ''[document]'' [] [
             Tag ''li'' [(''class'', ''p-planSearchList_item'')]
               [Tag ''div'' [(''class'', ''card-spec-blk'')]
                  [Tag ''a'' [(''class'', ''p-planSearchList_name_link''), (''href'', ''/card/1'')]
                     [NavigableString ''Card A'']]]]))
          (\<lambda>n. ''2024-11-03T01:10:00'')
          (Stored [[(''name'', JStr ''Card B'')]]))
     = Inr [[(''name'', JStr ''Card B'')],
            [(''name'', JStr ''Card A''), (''detail_url'', JStr ''https://kakaku.com/card/1''),
             (''features'', JList []), (''created_at'', JStr ''2024-11-03T01:10:00''),
             (''updated_at'', JStr ''2024-11-03T01:10:00'')]] \<and>
   \<not> valid_stamps [(''name'', JStr ''Card B'')]"
  by code_simp

text \<open>The theorem at a store of one record that the run scrapes again.\<close>

theorem persisted_stamps_witness:
  "load_existing_cards
     (Stored [[(''name'', JStr ''Card A''), (''created_at'', JStr ''2024-01-01T09:00:00''),
               (''updated_at'', JStr ''2024-01-01T09:00:00'')]])
     = [(''Card A'', [(''name'', JStr ''Card A''), (''created_at'', JStr ''2024-01-01T09:00:00''),
                      (''updated_at'', JStr ''2024-01-01T09:00:00'')])] \<and>
   valid_stamps [(''name'', JStr ''Card A''), (''created_at'', JStr ''2024-01-01T09:00:00''),
                 (''updated_at'', JStr ''2024-01-01T09:00:00'')] \<and>
   created_by ''2024-06-01T12:00:00''
     [(''name'', JStr ''Card A''), (''created_at'', JStr ''2024-01-01T09:00:00''),
      (''updated_at'', JStr ''2024-01-01T09:00:00'')] \<and>
   fst (main (PageList [1])
          (\<lambda>served url. Decoded (Tag ''[document]'' [] [
             Tag ''li'' [(''class'', ''p-planSearchList_item'')]
               [Tag ''div'' [(''class'', ''card-spec-blk'')]
                  [Tag ''a'' [(''class'', ''p-planSearchList_name_link''), (''href'', ''/card/1'')]
                     [NavigableString ''Card A'']]]]))
          (\<lambda>n. ''2024-06-01T12:00:00'')
          (Stored [[(''name'', JStr ''Card A''), (''created_at'', JStr ''2024-01-01T09:00:00''),
                    (''updated_at'', JStr ''2024-01-01T09:00:00'')]]))
     = Inr [[(''name'', JStr ''Card A''), (''created_at'', JStr ''2024-01-01T09:00:00''),
             (''updated_at'', JStr ''2024-06-01T12:00:00''),
             (''detail_url'', JStr ''https://kakaku.com/card/1''), (''features'', JList [])]] \<and>
   valid_stamps [(''name'', JStr ''Card A''), (''created_at'', JStr ''2024-01-01T09:00:00''),
             (''updated_at'', JStr ''2024-06-01T12:00:00''),
             (''detail_url'', JStr ''https://kakaku.com/card/1''), (''features'', JList [])]"
proof -
  let ?web = "\<lambda>(served::string list list) (url::string). Decoded (Tag ''[document]'' [] [
             Tag ''li'' [(''class'', ''p-planSearchList_item'')]
               [Tag ''div'' [(''class'', ''card-spec-blk'')]
                  [Tag ''a'' [(''class'', ''p-planSearchList_name_link''), (''href'', ''/card/1'')]
                     [NavigableString ''Card A'']]]])"
  let ?clk = "\<lambda>n::nat. ''2024-06-01T12:00:00''"
  let ?old = "[(''name'', JStr ''Card A''), (''created_at'', JStr ''2024-01-01T09:00:00''),
               (''updated_at'', JStr ''2024-01-01T09:00:00'')]"
  let ?new = "[(''name'', JStr ''Card A''), (''created_at'', JStr ''2024-01-01T09:00:00''),
             (''updated_at'', JStr ''2024-06-01T12:00:00''),
             (''detail_url'', JStr ''https://kakaku.com/card/1''), (''features'', JList [])]"
  have l: "load_existing_cards (Stored [?old]) = [(''Card A'', ?old)]" by code_simp
  have v: "valid_stamps ?old" by code_simp
  have c: "created_by ''2024-06-01T12:00:00'' ?old" by code_simp
  have h: "\<forall>r\<in>snd ` set (load_existing_cards (Stored [?old])).
             valid_stamps r \<and> created_by (?clk 0) r"
    unfolding l using v c by simp
  have e: "fst (main (PageList [1]) ?web ?clk (Stored [?old])) = Inr [?new]" by code_simp
  note t = persisted_stamps[OF h, of "PageList [1]" ?web]
  from conjunct1[OF t] obtain out where
    o: "main (PageList [1]) ?web ?clk (Stored [?old]) = (Inr out, \<lambda>n. ?clk (Suc n))" by blast
  with e have "out = [?new]" by simp
  moreover from conjunct2[OF t] o have "\<forall>r\<in>set out. valid_stamps r" by blast
  ultimately have "valid_stamps ?new" by simp
  with l v c e show ?thesis by blast
qed

section \<open>The fresh store\<close>



section \<open>The image downloader\<close>

text \<open>
  \<open>get_filename_from_url\<close> at a URL with a leading space, one with a tab, one with an
  unclosed bracket, one with a bracketed host that the library rejects or accepts, and
  one with parameters, query and fragment.
\<close>

lemma urlparse_examples:
  "get_filename_from_url (\<lambda>n. True) '' http://x.png'' = Inr []"
  "get_filename_from_url (\<lambda>n. True) [CHR ''h'', CHR ''t'', CHR 0x09, CHR ''t'', CHR ''p'', CHR '':'', CHR ''/'', CHR ''/'', CHR ''a'', CHR ''/'', CHR ''x'', CHR ''.'', CHR ''p'', CHR ''n'', CHR ''g''] = Inr ''x.png''"
  "get_filename_from_url (\<lambda>n. True) ''http://[x/a.png'' = Inl ValueError"
  "get_filename_from_url (\<lambda>n. False) ''http://[::1]/a.png'' = Inl ValueError"
  "get_filename_from_url (\<lambda>n. True) ''http://[::1]/a.png'' = Inr ''a.png''"
  "get_filename_from_url (\<lambda>n. False) ''https://a.example/b/x.png;p?q#f'' = Inr ''x.png''"
  by code_simp+

lemma count_list_distinct: "distinct xs \<Longrightarrow> count_list xs x = (if x \<in> set xs then 1 else 0)"
  by (induction xs) auto

lemma set_add_props: "set (set_add x s) = insert x (set s)" "distinct s \<Longrightarrow> distinct (set_add x s)"
  by (auto simp: set_add_def)

lemma add_brand_distinct:
  "add_brand brand brand_urls = Inr brand_urls' \<Longrightarrow> distinct brand_urls \<Longrightarrow> distinct brand_urls'"
  by (auto simp: add_brand_def set_add_props split: jval.splits option.splits if_splits)

lemma brands_urls_loop_distinct:
  "brands_urls_loop brands brand_urls = Inr brand_urls' \<Longrightarrow> distinct brand_urls \<Longrightarrow>
     distinct brand_urls'"
proof (induction brands arbitrary: brand_urls)
  case Nil
  then show ?case by simp
next
  case (Cons brand brands)
  from Cons.prems(1) obtain mid where 1: "add_brand brand brand_urls = Inr mid"
    and 2: "brands_urls_loop brands mid = Inr brand_urls'"
    by (auto split: sum.splits)
  from add_brand_distinct[OF 1 Cons.prems(2)] have "distinct mid" .
  with 2 show ?case by (rule Cons.IH)
qed

lemma collect_urls_distinct:
  "collect_urls cards (brand_urls, card_urls) = Inr (brand_urls', card_urls') \<Longrightarrow>
     distinct brand_urls \<Longrightarrow> distinct card_urls \<Longrightarrow>
     distinct brand_urls' \<and> distinct card_urls'"
proof (induction cards arbitrary: brand_urls card_urls)
  case Nil
  then show ?case by simp
next
  case (Cons crd cards)
  from Cons.prems(1) obtain cu bu where
    1: "(case map_of crd ''image_url'' of
              None \<Rightarrow> Inr card_urls
            | Some (JStr url) \<Rightarrow> Inr (set_add url card_urls)
            | Some _ \<Rightarrow> Inl TypeError) = Inr cu" and
    2: "(case map_of crd ''brands'' of
                   None \<Rightarrow> Inr brand_urls
                 | Some brands \<Rightarrow> brands_urls_loop (iterate brands) brand_urls) = Inr bu" and
    3: "collect_urls cards (bu, cu) = Inr (brand_urls', card_urls')"
    by (auto split: sum.splits)
  from 1 Cons.prems(3) have "distinct cu"
    by (auto simp: set_add_props split: option.splits jval.splits)
  moreover from 2 Cons.prems(2) have "distinct bu"
    by (auto split: option.splits dest: brands_urls_loop_distinct)
  ultimately show ?case using Cons.IH[OF 3] by blast
qed

lemma get_filename_error:
  "get_filename_from_url netloc_ok url = Inl e \<Longrightarrow> e = ValueError"
  by (auto simp: get_filename_from_url_def urlparse_path_def Let_def
      split: sum.splits prod.splits if_splits)

lemma isl_get_filename:
  "isl (get_filename_from_url netloc_ok url) \<longleftrightarrow>
     get_filename_from_url netloc_ok url = Inl ValueError"
  by (cases "get_filename_from_url netloc_ok url") (auto dest: get_filename_error)

lemma new_urls_ok:
  assumes "\<forall>url\<in>set urls. \<not> isl (get_filename_from_url netloc_ok url)"
  shows "new_urls netloc_ok existing_images urls new =
           Inr (new @ filter (\<lambda>url. projr (get_filename_from_url netloc_ok url) \<notin> existing_images)
                        urls)"
  using assms
proof (induction urls arbitrary: new)
  case Nil
  show ?case by simp
next
  case (Cons url urls)
  from Cons.prems obtain f where f: "get_filename_from_url netloc_ok url = Inr f"
    by (cases "get_filename_from_url netloc_ok url") auto
  from Cons.prems have "\<forall>url\<in>set urls. \<not> isl (get_filename_from_url netloc_ok url)" by simp
  from Cons.IH[OF this] f show ?case by simp
qed

lemma new_urls_raises:
  assumes "\<exists>url\<in>set urls. isl (get_filename_from_url netloc_ok url)"
  shows "new_urls netloc_ok existing_images urls new = Inl ValueError"
  using assms
proof (induction urls arbitrary: new)
  case Nil
  then show ?case by simp
next
  case (Cons url urls)
  show ?case
  proof (cases "get_filename_from_url netloc_ok url")
    case (Inl e)
    then show ?thesis by (simp add: get_filename_error)
  next
    case (Inr f)
    with Cons.prems have "\<exists>url\<in>set urls. isl (get_filename_from_url netloc_ok url)" by auto
    from Cons.IH[OF this] Inr show ?thesis by simp
  qed
qed

lemma download_tasks_ok:
  assumes "\<forall>url\<in>set urls. \<not> isl (get_filename_from_url netloc_ok url)"
  shows "download_tasks netloc_ok directory urls tasks =
           Inr (tasks @ map (\<lambda>url. (url, directory @ ''/'' @
                                     projr (get_filename_from_url netloc_ok url))) urls)"
  using assms
proof (induction urls arbitrary: tasks)
  case Nil
  show ?case by simp
next
  case (Cons url urls)
  from Cons.prems obtain f where f: "get_filename_from_url netloc_ok url = Inr f"
    by (cases "get_filename_from_url netloc_ok url") auto
  from Cons.prems have "\<forall>url\<in>set urls. \<not> isl (get_filename_from_url netloc_ok url)" by simp
  from Cons.IH[OF this] f show ?case by (simp del: append.simps)
qed

lemma process_cards_ok:
  assumes "collect_urls cards ([], []) = Inr (brand_urls, card_urls)"
    and "list_all (\<lambda>url. \<not> isl (get_filename_from_url netloc_ok url)) (brand_urls @ card_urls)"
  shows "process_cards netloc_ok brand_entries card_entries (Stored cards) =
           (map (\<lambda>url. (url, ''images/brands'' @ ''/'' @ projr (get_filename_from_url netloc_ok url)))
              (filter (\<lambda>url. projr (get_filename_from_url netloc_ok url)
                               \<notin> load_existing_images brand_entries) brand_urls) @
            map (\<lambda>url. (url, ''images/cards'' @ ''/'' @ projr (get_filename_from_url netloc_ok url)))
              (filter (\<lambda>url. projr (get_filename_from_url netloc_ok url)
                               \<notin> load_existing_images card_entries) card_urls),
            None)"
proof -
  from assms(2) have b: "\<forall>url\<in>set brand_urls. \<not> isl (get_filename_from_url netloc_ok url)"
    and c: "\<forall>url\<in>set card_urls. \<not> isl (get_filename_from_url netloc_ok url)"
    by (auto simp: list_all_iff)
  from b have b': "\<forall>url\<in>set (filter (\<lambda>url. projr (get_filename_from_url netloc_ok url)
                               \<notin> load_existing_images brand_entries) brand_urls).
                      \<not> isl (get_filename_from_url netloc_ok url)" by simp
  from c have c': "\<forall>url\<in>set (filter (\<lambda>url. projr (get_filename_from_url netloc_ok url)
                               \<notin> load_existing_images card_entries) card_urls).
                      \<not> isl (get_filename_from_url netloc_ok url)" by simp
  show ?thesis
    unfolding process_cards_def Let_def
    by (simp only: file_state.case assms(1) sum.case prod.case new_urls_ok[OF b] new_urls_ok[OF c]
        download_tasks_ok[OF b'] download_tasks_ok[OF c'] append_Nil)
qed

lemma process_cards_raises:
  assumes "collect_urls cards ([], []) = Inr (brand_urls, card_urls)"
    and "\<not> list_all (\<lambda>url. \<not> isl (get_filename_from_url netloc_ok url)) (brand_urls @ card_urls)"
  shows "process_cards netloc_ok brand_entries card_entries (Stored cards) = ([], Some ValueError)"
proof (cases "\<exists>url\<in>set brand_urls. isl (get_filename_from_url netloc_ok url)")
  case True
  from new_urls_raises[OF this] assms(1) show ?thesis
    by (simp add: process_cards_def)
next
  case False
  then have b: "\<forall>url\<in>set brand_urls. \<not> isl (get_filename_from_url netloc_ok url)" by simp
  from False assms(2) have "\<exists>url\<in>set card_urls. isl (get_filename_from_url netloc_ok url)"
    by (auto simp: list_all_iff)
  from new_urls_raises[OF this] new_urls_ok[OF b] assms(1) show ?thesis
    by (simp add: process_cards_def)
qed

lemma count_tasks:
  assumes "distinct urls" and "url \<in> set urls"
  shows "count_list
           (map (\<lambda>url. (url, directory @ ''/'' @ projr (get_filename_from_url netloc_ok url)))
              (filter (\<lambda>url. projr (get_filename_from_url netloc_ok url) \<notin> existing_images) urls))
           (url, directory @ ''/'' @ projr (get_filename_from_url netloc_ok url)) =
         (if projr (get_filename_from_url netloc_ok url) \<in> existing_images then 0 else 1)"
proof -
  let ?T = "\<lambda>url. (url, directory @ ''/'' @ projr (get_filename_from_url netloc_ok url))"
  let ?new = "filter (\<lambda>url. projr (get_filename_from_url netloc_ok url) \<notin> existing_images) urls"
  have "inj ?T" by (rule injI) simp
  then have "count_list (map ?T ?new) (?T url) = count_list ?new url"
    by (rule count_list_map_conv)
  also from assms have "\<dots> = (if projr (get_filename_from_url netloc_ok url) \<in> existing_images
                              then 0 else 1)"
    by (simp add: count_list_distinct)
  finally show ?thesis .
qed

lemma other_directory:
  "count_list (map (\<lambda>url. (url, ''images/brands'' @ ''/'' @ g url)) urls)
     (url, ''images/cards'' @ ''/'' @ f) = 0"
  "count_list (map (\<lambda>url. (url, ''images/cards'' @ ''/'' @ g url)) urls)
     (url, ''images/brands'' @ ''/'' @ f) = 0"
  by (rule count_notin, auto)+

text \<open>
  Claim C6, as amended. Take two distinct image URLs of the same category with equal
  file names. When \<^verbatim>\<open>urlparse\<close> accepts every URL collected from the store, the run
  gathers its tasks and: when the file name is in the scan of the category directory,
  neither URL is requested; otherwise each of the two is requested exactly once, and
  both downloads go to the same file. When \<^verbatim>\<open>urlparse\<close> raises for some collected URL,
  the run ends with \<^verbatim>\<open>ValueError\<close> before any request. Within a run, duplicates are
  removed by URL (the sets of lines 60-72); only the scan of the directory is by file
  name.
\<close>

theorem same_basename_requests:
  assumes "collect_urls cards ([], []) = Inr (brand_urls, card_urls)"
    and "(u1 \<in> set card_urls \<and> u2 \<in> set card_urls \<and>
           directory = ''images/cards'' \<and> entries = card_entries) \<or>
         (u1 \<in> set brand_urls \<and> u2 \<in> set brand_urls \<and>
           directory = ''images/brands'' \<and> entries = brand_entries)"
    and "u1 \<noteq> u2"
    and "get_filename_from_url netloc_ok u1 = Inr filename"
    and "get_filename_from_url netloc_ok u2 = Inr filename"
  shows "if list_all (\<lambda>url. \<not> isl (get_filename_from_url netloc_ok url)) (brand_urls @ card_urls)
         then \<exists>tasks.
                process_cards netloc_ok brand_entries card_entries (Stored cards) = (tasks, None) \<and>
                count_list tasks (u1, directory @ ''/'' @ filename) =
                  (if filename \<in> load_existing_images entries then 0 else 1) \<and>
                count_list tasks (u2, directory @ ''/'' @ filename) =
                  (if filename \<in> load_existing_images entries then 0 else 1)
         else process_cards netloc_ok brand_entries card_entries (Stored cards)
                = ([], Some ValueError) \<and>
              requests netloc_ok brand_entries card_entries (Stored cards) = []"
proof (cases "list_all (\<lambda>url. \<not> isl (get_filename_from_url netloc_ok url)) (brand_urls @ card_urls)")
  case False
  from process_cards_raises[OF assms(1) False, of brand_entries card_entries] False
  show ?thesis by (simp add: requests_def)
next
  case True
  from collect_urls_distinct[OF assms(1)] have d: "distinct brand_urls" "distinct card_urls"
    by simp_all
  note p = process_cards_ok[OF assms(1) True, of brand_entries card_entries]
  have f: "projr (get_filename_from_url netloc_ok u1) = filename"
    "projr (get_filename_from_url netloc_ok u2) = filename"
    using assms(4,5) by simp_all
  from assms(2) have "\<exists>tasks.
                process_cards netloc_ok brand_entries card_entries (Stored cards) = (tasks, None) \<and>
                count_list tasks (u1, directory @ ''/'' @ filename) =
                  (if filename \<in> load_existing_images entries then 0 else 1) \<and>
                count_list tasks (u2, directory @ ''/'' @ filename) =
                  (if filename \<in> load_existing_images entries then 0 else 1)"
  proof
    assume a: "u1 \<in> set card_urls \<and> u2 \<in> set card_urls \<and>
           directory = ''images/cards'' \<and> entries = card_entries"
    from a have m: "u1 \<in> set card_urls" "u2 \<in> set card_urls"
      and e: "directory = ''images/cards''" "entries = card_entries" by simp_all
    note c1 = count_tasks[OF d(2) m(1), of "''images/cards''" netloc_ok
        "load_existing_images card_entries", unfolded f]
    note c2 = count_tasks[OF d(2) m(2), of "''images/cards''" netloc_ok
        "load_existing_images card_entries", unfolded f]
    show ?thesis
      unfolding p e
      by (intro exI conjI, rule refl) (simp_all only: count_list_append other_directory c1 c2 add_0)
  next
    assume a: "u1 \<in> set brand_urls \<and> u2 \<in> set brand_urls \<and>
           directory = ''images/brands'' \<and> entries = brand_entries"
    from a have m: "u1 \<in> set brand_urls" "u2 \<in> set brand_urls"
      and e: "directory = ''images/brands''" "entries = brand_entries" by simp_all
    note c1 = count_tasks[OF d(1) m(1), of "''images/brands''" netloc_ok
        "load_existing_images brand_entries", unfolded f]
    note c2 = count_tasks[OF d(1) m(2), of "''images/brands''" netloc_ok
        "load_existing_images brand_entries", unfolded f]
    show ?thesis
      unfolding p e
      by (intro exI conjI, rule refl)
        (simp_all only: count_list_append other_directory c1 c2 add_0_right)
  qed
  with True show ?thesis by simp
qed

text \<open>
  The claim as stated, at most one request for the two URLs together, fails when the
  file name is not in the scan: both URLs are requested.
\<close>

theorem same_basename_requests_counterexample:
  "''https://a.example/x.png'' \<noteq> ''https://b.example/x.png'' \<and>
   get_filename_from_url (\<lambda>netloc. True) ''https://a.example/x.png'' = Inr ''x.png'' \<and>
   get_filename_from_url (\<lambda>netloc. True) ''https://b.example/x.png'' = Inr ''x.png'' \<and>
   process_cards (\<lambda>netloc. True) [] [''old.png'']
     (Stored [[(''name'', JStr ''Card A''), (''image_url'', JStr ''https://a.example/x.png'')],
              [(''name'', JStr ''Card B''), (''image_url'', JStr ''https://b.example/x.png'')]])
     = ([(''https://a.example/x.png'', ''images/cards/x.png''),
         (''https://b.example/x.png'', ''images/cards/x.png'')], None) \<and>
   requests (\<lambda>netloc. True) [] [''old.png'']
     (Stored [[(''name'', JStr ''Card A''), (''image_url'', JStr ''https://a.example/x.png'')],
              [(''name'', JStr ''Card B''), (''image_url'', JStr ''https://b.example/x.png'')]])
     = [''https://a.example/x.png'', ''https://b.example/x.png'']"
  by code_simp

text \<open>
  The theorem at two card images named \<^verbatim>\<open>x.png\<close>, with and without that file in the
  directory, and at a store that also holds a URL with an unclosed bracket.
\<close>

theorem same_basename_requests_witness:
  "collect_urls
     [[(''name'', JStr ''Card A''), (''image_url'', JStr ''https://a.example/x.png'')],
      [(''name'', JStr ''Card B''), (''image_url'', JStr ''https://b.example/x.png'')]] ([], [])
     = Inr ([], [''https://a.example/x.png'', ''https://b.example/x.png'']) \<and>
   get_filename_from_url (\<lambda>netloc. True) ''https://a.example/x.png'' = Inr ''x.png'' \<and>
   get_filename_from_url (\<lambda>netloc. True) ''https://b.example/x.png'' = Inr ''x.png'' \<and>
   ''x.png'' \<in> load_existing_images [''x.png''] \<and>
   (\<exists>tasks.
      process_cards (\<lambda>netloc. True) [] [''x.png'']
        (Stored [[(''name'', JStr ''Card A''), (''image_url'', JStr ''https://a.example/x.png'')],
                 [(''name'', JStr ''Card B''), (''image_url'', JStr ''https://b.example/x.png'')]])
        = (tasks, None) \<and>
      count_list tasks (''https://a.example/x.png'', ''images/cards/x.png'') = 0 \<and>
      count_list tasks (''https://b.example/x.png'', ''images/cards/x.png'') = 0) \<and>
   ''x.png'' \<notin> load_existing_images [''old.png''] \<and>
   (\<exists>tasks.
      process_cards (\<lambda>netloc. True) [] [''old.png'']
        (Stored [[(''name'', JStr ''Card A''), (''image_url'', JStr ''https://a.example/x.png'')],
                 [(''name'', JStr ''Card B''), (''image_url'', JStr ''https://b.example/x.png'')]])
        = (tasks, None) \<and>
      count_list tasks (''https://a.example/x.png'', ''images/cards/x.png'') = 1 \<and>
      count_list tasks (''https://b.example/x.png'', ''images/cards/x.png'') = 1) \<and>
   collect_urls
     [[(''name'', JStr ''Card A''), (''image_url'', JStr ''https://a.example/x.png'')],
      [(''name'', JStr ''Card B''), (''image_url'', JStr ''https://b.example/x.png'')],
      [(''name'', JStr ''Card C''), (''image_url'', JStr ''http://[x/a.png'')]] ([], [])
     = Inr ([], [''https://a.example/x.png'', ''https://b.example/x.png'', ''http://[x/a.png'']) \<and>
   get_filename_from_url (\<lambda>netloc. True) ''http://[x/a.png'' = Inl ValueError \<and>
   process_cards (\<lambda>netloc. True) [] [''old.png'']
     (Stored [[(''name'', JStr ''Card A''), (''image_url'', JStr ''https://a.example/x.png'')],
              [(''name'', JStr ''Card B''), (''image_url'', JStr ''https://b.example/x.png'')],
              [(''name'', JStr ''Card C''), (''image_url'', JStr ''http://[x/a.png'')]])
     = ([], Some ValueError)"
proof -
  let ?ok = "\<lambda>netloc::string. True"
  let ?a = "''https://a.example/x.png''"
  let ?b = "''https://b.example/x.png''"
  let ?c = "''http://[x/a.png''"
  let ?cards = "[[(''name'', JStr ''Card A''), (''image_url'', JStr ?a)],
                 [(''name'', JStr ''Card B''), (''image_url'', JStr ?b)]]"
  let ?cards3 = "[[(''name'', JStr ''Card A''), (''image_url'', JStr ?a)],
                 [(''name'', JStr ''Card B''), (''image_url'', JStr ?b)],
                 [(''name'', JStr ''Card C''), (''image_url'', JStr ?c)]]"
  have h1: "collect_urls ?cards ([], []) = Inr ([], [?a, ?b])" by code_simp
  have k1: "collect_urls ?cards3 ([], []) = Inr ([], [?a, ?b, ?c])" by code_simp
  have h3: "?a \<noteq> ?b" by simp
  have h4: "get_filename_from_url ?ok ?a = Inr ''x.png''" by code_simp
  have h5: "get_filename_from_url ?ok ?b = Inr ''x.png''" by code_simp
  have hc: "get_filename_from_url ?ok ?c = Inl ValueError" by code_simp
  have p: "''images/cards'' @ ''/'' @ ''x.png'' = ''images/cards/x.png''" by simp
  have h2: "(?a \<in> set [?a, ?b] \<and> ?b \<in> set [?a, ?b] \<and>
           ''images/cards'' = ''images/cards'' \<and> entries = entries) \<or>
         (?a \<in> set [] \<and> ?b \<in> set [] \<and>
           ''images/cards'' = ''images/brands'' \<and> entries = [])" for entries :: "string list"
    by simp
  have k2: "(?a \<in> set [?a, ?b, ?c] \<and> ?b \<in> set [?a, ?b, ?c] \<and>
           ''images/cards'' = ''images/cards'' \<and> [''old.png''] = [''old.png'']) \<or>
         (?a \<in> set [] \<and> ?b \<in> set [] \<and>
           ''images/cards'' = ''images/brands'' \<and> [''old.png''] = [])"
    by simp
  have la: "list_all (\<lambda>url. \<not> isl (get_filename_from_url ?ok url)) ([] @ [?a, ?b]) = True"
    by code_simp
  have lb: "list_all (\<lambda>url. \<not> isl (get_filename_from_url ?ok url)) ([] @ [?a, ?b, ?c]) = False"
    by code_simp
  have in1: "(''x.png'' \<in> load_existing_images [''x.png'']) = True" by code_simp
  have in2: "(''x.png'' \<in> load_existing_images [''old.png'']) = False" by code_simp
  note t = same_basename_requests[OF h1 h2 h3 h4 h5, unfolded la if_True p]
  from t[of "[''x.png'']"] have r1: "\<exists>tasks.
      process_cards ?ok [] [''x.png''] (Stored ?cards) = (tasks, None) \<and>
      count_list tasks (?a, ''images/cards/x.png'') = 0 \<and>
      count_list tasks (?b, ''images/cards/x.png'') = 0"
    unfolding in1 if_True .
  from t[of "[''old.png'']"] have r2: "\<exists>tasks.
      process_cards ?ok [] [''old.png''] (Stored ?cards) = (tasks, None) \<and>
      count_list tasks (?a, ''images/cards/x.png'') = 1 \<and>
      count_list tasks (?b, ''images/cards/x.png'') = 1"
    unfolding in2 if_False .
  from same_basename_requests[OF k1 k2 h3 h4 h5, unfolded lb if_False]
  have r3: "process_cards ?ok [] [''old.png''] (Stored ?cards3) = ([], Some ValueError)"
    by (rule conjunct1)
  from in1 have i1: "''x.png'' \<in> load_existing_images [''x.png'']" by simp
  from in2 have i2: "''x.png'' \<notin> load_existing_images [''old.png'']" by simp
  from h1 h4 h5 i1 r1 i2 r2 k1 hc r3 show ?thesis by (intro conjI)
qed

text \<open>
  Claim C7. When the scan of each image directory has the file name of every image
  URL that the run collects from the store for that directory, the run sends no
  request: it gathers no download task, or it ends with the \<^verbatim>\<open>ValueError\<close> of a URL
  that \<^verbatim>\<open>urlparse\<close> rejects, before any download.
\<close>

theorem rerun_no_requests:
  assumes "collect_urls cards ([], []) = Inr (brand_urls, card_urls)"
    and "\<forall>url\<in>set brand_urls. \<forall>filename. get_filename_from_url netloc_ok url = Inr filename \<longrightarrow>
           filename \<in> load_existing_images brand_entries"
    and "\<forall>url\<in>set card_urls. \<forall>filename. get_filename_from_url netloc_ok url = Inr filename \<longrightarrow>
           filename \<in> load_existing_images card_entries"
  shows "requests netloc_ok brand_entries card_entries (Stored cards) = [] \<and>
         process_cards netloc_ok brand_entries card_entries (Stored cards) =
           ([], if list_all (\<lambda>url. \<not> isl (get_filename_from_url netloc_ok url))
                     (brand_urls @ card_urls)
                then None else Some ValueError)"
proof (cases "list_all (\<lambda>url. \<not> isl (get_filename_from_url netloc_ok url)) (brand_urls @ card_urls)")
  case False
  from process_cards_raises[OF assms(1) False, of brand_entries card_entries] False
  show ?thesis by (simp add: requests_def)
next
  case True
  have "filter (\<lambda>url. projr (get_filename_from_url netloc_ok url)
                               \<notin> load_existing_images brand_entries) brand_urls = []"
  proof (rule filter_False, rule ballI)
    fix url assume u: "url \<in> set brand_urls"
    with True have "\<not> isl (get_filename_from_url netloc_ok url)" by (simp add: list_all_iff)
    then obtain f where "get_filename_from_url netloc_ok url = Inr f"
      by (cases "get_filename_from_url netloc_ok url") auto
    with assms(2) u show "\<not> projr (get_filename_from_url netloc_ok url)
                               \<notin> load_existing_images brand_entries" by simp
  qed
  moreover have "filter (\<lambda>url. projr (get_filename_from_url netloc_ok url)
                               \<notin> load_existing_images card_entries) card_urls = []"
  proof (rule filter_False, rule ballI)
    fix url assume u: "url \<in> set card_urls"
    with True have "\<not> isl (get_filename_from_url netloc_ok url)" by (simp add: list_all_iff)
    then obtain f where "get_filename_from_url netloc_ok url = Inr f"
      by (cases "get_filename_from_url netloc_ok url") auto
    with assms(3) u show "\<not> projr (get_filename_from_url netloc_ok url)
                               \<notin> load_existing_images card_entries" by simp
  qed
  ultimately have "process_cards netloc_ok brand_entries card_entries (Stored cards) = ([], None)"
    unfolding process_cards_ok[OF assms(1) True] by simp
  with True show ?thesis by (simp add: requests_def)
qed

text \<open>The theorem at a store of one card with one brand, both images on disk.\<close>

theorem rerun_no_requests_witness:
  "collect_urls
     [[(''name'', JStr ''Card A''), (''image_url'', JStr ''https://a.example/x.png''),
       (''brands'', JList [JDict [(''image_url'', JStr ''https://a.example/b/visa.gif''),
                                  (''name'', JStr ''Visa'')]])]] ([], [])
     = Inr ([''https://a.example/b/visa.gif''], [''https://a.example/x.png'']) \<and>
   get_filename_from_url (\<lambda>netloc. True) ''https://a.example/b/visa.gif'' = Inr ''visa.gif'' \<and>
   ''visa.gif'' \<in> load_existing_images [''visa.gif''] \<and>
   get_filename_from_url (\<lambda>netloc. True) ''https://a.example/x.png'' = Inr ''x.png'' \<and>
   ''x.png'' \<in> load_existing_images [''x.png'', ''notes.txt''] \<and>
   requests (\<lambda>netloc. True) [''visa.gif''] [''x.png'', ''notes.txt'']
     (Stored [[(''name'', JStr ''Card A''), (''image_url'', JStr ''https://a.example/x.png''),
       (''brands'', JList [JDict [(''image_url'', JStr ''https://a.example/b/visa.gif''),
                                  (''name'', JStr ''Visa'')]])]]) = [] \<and>
   process_cards (\<lambda>netloc. True) [''visa.gif''] [''x.png'', ''notes.txt'']
     (Stored [[(''name'', JStr ''Card A''), (''image_url'', JStr ''https://a.example/x.png''),
       (''brands'', JList [JDict [(''image_url'', JStr ''https://a.example/b/visa.gif''),
                                  (''name'', JStr ''Visa'')]])]]) = ([], None)"
proof -
  let ?ok = "\<lambda>netloc::string. True"
  let ?cards = "[[(''name'', JStr ''Card A''), (''image_url'', JStr ''https://a.example/x.png''),
       (''brands'', JList [JDict [(''image_url'', JStr ''https://a.example/b/visa.gif''),
                                  (''name'', JStr ''Visa'')]])]]"
  have h1: "collect_urls ?cards ([], [])
     = Inr ([''https://a.example/b/visa.gif''], [''https://a.example/x.png''])" by code_simp
  have fb: "get_filename_from_url ?ok ''https://a.example/b/visa.gif'' = Inr ''visa.gif''"
    by code_simp
  have fc: "get_filename_from_url ?ok ''https://a.example/x.png'' = Inr ''x.png''" by code_simp
  have b: "''visa.gif'' \<in> load_existing_images [''visa.gif'']" by code_simp
  have c: "''x.png'' \<in> load_existing_images [''x.png'', ''notes.txt'']" by code_simp
  from fb b have h2: "\<forall>url\<in>set [''https://a.example/b/visa.gif'']. \<forall>filename.
      get_filename_from_url ?ok url = Inr filename \<longrightarrow>
      filename \<in> load_existing_images [''visa.gif'']" by simp
  from fc c have h3: "\<forall>url\<in>set [''https://a.example/x.png'']. \<forall>filename.
      get_filename_from_url ?ok url = Inr filename \<longrightarrow>
      filename \<in> load_existing_images [''x.png'', ''notes.txt'']" by simp
  have la: "list_all (\<lambda>url. \<not> isl (get_filename_from_url ?ok url))
              ([''https://a.example/b/visa.gif''] @ [''https://a.example/x.png'']) = True"
    by code_simp
  note t = rerun_no_requests[OF h1 h2 h3, unfolded la if_True]
  from t have r: "requests ?ok [''visa.gif''] [''x.png'', ''notes.txt''] (Stored ?cards) = []"
    by (rule conjunct1)
  from t have q: "process_cards ?ok [''visa.gif''] [''x.png'', ''notes.txt''] (Stored ?cards)
      = ([], None)" by (rule conjunct2)
  from h1 fb b fc c r q show ?thesis by (intro conjI)
qed

end
